theory Spec2Isabelle
  imports Complex_Main "HOL-Library.Multiset"
begin

section \<open>Python values and list operations used by the game\<close>

text \<open>
  The exceptions the interpreter can raise inside \<^verbatim>\<open>MastermindGame\<close>. A
  \<^verbatim>\<open>ValueError\<close> of \<^verbatim>\<open>list.index\<close> is caught where it is raised, so it is a
  branch of the evaluation loops and not a member of this type.
\<close>

datatype py_error = TypeError | IndexError

text \<open>\<^verbatim>\<open>xs.index(x)\<close>: the first position of \<open>x\<close>, \<open>None\<close> for \<^verbatim>\<open>ValueError\<close>.\<close>

fun py_index :: "'a list \<Rightarrow> 'a \<Rightarrow> nat option" where
  "py_index [] x = None"
| "py_index (y # ys) x =
     (if y = x then Some 0
      else (case py_index ys x of None \<Rightarrow> None | Some k \<Rightarrow> Some (Suc k)))"

text \<open>\<^verbatim>\<open>xs.pop(k)\<close> for an index \<open>k\<close> that \<^verbatim>\<open>index\<close> returned: the list without position \<open>k\<close>.\<close>

definition py_pop :: "'a list \<Rightarrow> nat \<Rightarrow> 'a list" where
  "py_pop xs k = take k xs @ drop (Suc k) xs"

text \<open>
  Slice bounds: a negative bound counts from the end, and both bounds are clipped to the
  list, so that a slice never raises.
\<close>

definition slice_index :: "nat \<Rightarrow> int \<Rightarrow> nat" where
  "slice_index n i = (if i < 0 then nat (max 0 (int n + i)) else min (nat i) n)"

definition py_slice :: "'a list \<Rightarrow> int \<Rightarrow> int \<Rightarrow> 'a list" where
  "py_slice xs s e =
     (let a = slice_index (length xs) s; b = slice_index (length xs) e
      in take (b - a) (drop a xs))"

text \<open>
  The widgets of a slice are the widgets of the list itself, so configuring every widget of
  \<^verbatim>\<open>xs[s:e]\<close> changes \<open>xs\<close> at those positions.
\<close>

definition configure_slice :: "('a \<Rightarrow> 'a) \<Rightarrow> 'a list \<Rightarrow> int \<Rightarrow> int \<Rightarrow> 'a list" where
  "configure_slice f xs s e =
     (let a = slice_index (length xs) s; b = slice_index (length xs) e
      in take a xs @ map f (take (b - a) (drop a xs)) @ drop (a + (b - a)) xs)"

text \<open>\<^verbatim>\<open>xs[i]\<close> for an integer index: negative indices count from the end.\<close>

definition py_position :: "nat \<Rightarrow> int \<Rightarrow> nat option" where
  "py_position n i =
     (let j = (if i < 0 then int n + i else i)
      in if 0 \<le> j \<and> j < int n then Some (nat j) else None)"

text \<open>\<^verbatim>\<open>int(x)\<close> of a float: truncation towards zero.\<close>

definition py_int :: "real \<Rightarrow> int" where
  "py_int x = (if x < 0 then \<lceil>x\<rceil> else \<lfloor>x\<rfloor>)"

text \<open>
  A Python float is a binary64 number, here the real number it stands for. An arithmetic
  operation on floats returns the exact result rounded to the nearest float, a tie going
  to the even significand. \<open>scale_significand\<close> writes a positive number as
  \<open>m * 2 ^ k\<close> with \<open>2 ^ 52 \<le> m < 2 ^ 53\<close> (the two bounds are \<open>4503599627370496\<close> and
  \<open>9007199254740992\<close>), or with \<open>k = -1074\<close> and a smaller \<open>m\<close> for the subnormal
  numbers; its first argument bounds the number of steps, and no float needs more than
  \<open>2200\<close>. Rounding \<open>m\<close> to an integer then gives the float. The
  readings of \<^verbatim>\<open>time.time()\<close> are far below the largest float, so that an overflow to
  infinity is not part of the model.
\<close>

definition round_half_even :: "real \<Rightarrow> int" where
  "round_half_even x =
     (let n = \<lfloor>x\<rfloor>; d = x - of_int n
      in if d < 1 / 2 then n else if 1 / 2 < d then n + 1 else if even n then n else n + 1)"

function scale_significand :: "int \<Rightarrow> real \<Rightarrow> int \<Rightarrow> real \<times> int" where
  "scale_significand steps m k =
     (if steps \<le> 0 then (m, k)
      else if 9007199254740992 \<le> m then scale_significand (steps - 1) (m / 2) (k + 1)
      else if m < 4503599627370496 \<and> - 1074 < k
      then scale_significand (steps - 1) (m * 2) (k - 1)
      else (m, k))"
  by pat_completeness auto
termination
  by (relation "measure (\<lambda>(steps, m, k). nat steps)") auto

declare scale_significand.simps [simp del]

definition two_to_the :: "int \<Rightarrow> real" where
  "two_to_the k = (if 0 \<le> k then 2 ^ nat k else 1 / 2 ^ nat (- k))"

fun float_of_scaled :: "real \<Rightarrow> real \<times> int \<Rightarrow> real" where
  "float_of_scaled x (m, k) = sgn x * of_int (round_half_even m) * two_to_the k"

definition float_round :: "real \<Rightarrow> real" where
  "float_round x =
     (if x = 0 then 0 else float_of_scaled x (scale_significand 2200 \<bar>x\<bar> 0))"

text \<open>\<^verbatim>\<open>a - b\<close> on floats.\<close>

definition float_sub :: "real \<Rightarrow> real \<Rightarrow> real" where
  "float_sub a b = float_round (a - b)"

text \<open>
  A \<^verbatim>\<open>for i in range(...)\<close> loop whose body may raise: the first exception ends the loop.
\<close>

fun for_range :: "(nat \<Rightarrow> 's \<Rightarrow> 'e + 's) \<Rightarrow> nat list \<Rightarrow> 's \<Rightarrow> 'e + 's" where
  "for_range body [] s = Inr s"
| "for_range body (i # is) s =
     (case body i s of Inl e \<Rightarrow> Inl e | Inr s' \<Rightarrow> for_range body is s')"

section \<open>Constant attributes\<close>

type_synonym color = string

definition ROWS :: nat where
  "ROWS = 15"

definition COLUMNS :: nat where
  "COLUMNS = 4"

definition COLORS :: "color list" where
  "COLORS = [''red'', ''blue'', ''pink'', ''yellow'', ''green'', ''cyan'']"

section \<open>Submission evaluation\<close>

text \<open>
  The local variables of the evaluation in \<^verbatim>\<open>handle_submit\<close>.
  \<open>correct_color_count\<close> counts the right colors in the right place,
  \<open>correct_location_color_count\<close> the right colors in a wrong place (the names are the
  source's). \<open>printed\<close> counts the executions of the two \<^verbatim>\<open>except ValueError\<close>
  branches, each of which prints a diagnostic. An exception that leaves the loops is
  returned with the number of diagnostics printed before it.
\<close>

record 'a evaluation =
  correct_color_count :: nat
  correct_location_color_count :: nat
  correct_color_tracker :: "bool list"
  remaining_colors :: "'a list"
  printed :: nat

definition start_evaluation :: "'a list \<Rightarrow> 'a evaluation" where
  "start_evaluation secret =
     \<lparr>correct_color_count = 0, correct_location_color_count = 0,
      correct_color_tracker = replicate COLUMNS False,
      remaining_colors = secret, printed = 0\<rparr>"

text \<open>Body of the first loop, at position \<open>i\<close>.\<close>

definition first_pass_body ::
  "'a list \<Rightarrow> 'a list \<Rightarrow> nat \<Rightarrow> 'a evaluation \<Rightarrow> (py_error \<times> nat) + 'a evaluation" where
  "first_pass_body submitted_colors secret i ev =
     (if length submitted_colors \<le> i \<or> length secret \<le> i then Inl (IndexError, printed ev)
      else if submitted_colors ! i = secret ! i then
        (let ev1 = ev\<lparr>correct_color_count := correct_color_count ev + 1\<rparr>
         in case py_index (remaining_colors ev1) (submitted_colors ! i) of
              None \<Rightarrow> Inr (ev1\<lparr>printed := printed ev1 + 1\<rparr>)
            | Some correct_color_index \<Rightarrow>
                (let ev2 = ev1\<lparr>remaining_colors :=
                                 py_pop (remaining_colors ev1) correct_color_index\<rparr>
                 in if length (correct_color_tracker ev2) \<le> i then Inl (IndexError, printed ev2)
                    else Inr (ev2\<lparr>correct_color_tracker :=
                                     (correct_color_tracker ev2)[i := True]\<rparr>)))
      else Inr ev)"

text \<open>Body of the second loop, at position \<open>i\<close>.\<close>

definition second_pass_body ::
  "'a list \<Rightarrow> nat \<Rightarrow> 'a evaluation \<Rightarrow> (py_error \<times> nat) + 'a evaluation" where
  "second_pass_body submitted_colors i ev =
     (if length (correct_color_tracker ev) \<le> i then Inl (IndexError, printed ev)
      else if correct_color_tracker ev ! i then Inr ev
      else if length submitted_colors \<le> i then Inl (IndexError, printed ev)
      else if submitted_colors ! i \<in> set (remaining_colors ev) then
        (let ev1 = ev\<lparr>correct_location_color_count := correct_location_color_count ev + 1\<rparr>
         in case py_index (remaining_colors ev1) (submitted_colors ! i) of
              None \<Rightarrow> Inr (ev1\<lparr>printed := printed ev1 + 1\<rparr>)
            | Some correct_color_index \<Rightarrow>
                Inr (ev1\<lparr>remaining_colors :=
                            py_pop (remaining_colors ev1) correct_color_index\<rparr>))
      else Inr ev)"

text \<open>The two loops of \<^verbatim>\<open>handle_submit\<close>, one after the other.\<close>

definition evaluate_submission :: "'a list \<Rightarrow> 'a list \<Rightarrow> (py_error \<times> nat) + 'a evaluation" where
  "evaluate_submission secret submitted_colors =
     (case for_range (first_pass_body submitted_colors secret)
             [0..<length submitted_colors] (start_evaluation secret) of
        Inl e \<Rightarrow> Inl e
      | Inr ev \<Rightarrow>
          for_range (second_pass_body submitted_colors) [0..<length submitted_colors] ev)"

section \<open>The game object\<close>

text \<open>
  A tkinter widget is modelled by the options the game reads or configures: a play-area
  button by its \<^verbatim>\<open>background\<close> and \<^verbatim>\<open>state\<close>, a feedback label (peg) by its
  background, the START and SUBMIT buttons by their state, the instructional label by its
  text. Frames, the logo, the palette widgets and the selected-color label are never read
  back and are left out.
\<close>

datatype widget_state = NORMAL | ACTIVE | DISABLED

record button =
  background :: color
  state :: widget_state

text \<open>The three texts of the instructional label; the last one interpolates the two counts.\<close>

datatype label_text =
    Click_START_to_begin
  | Select_four_colors
  | Colors_correct nat nat

record game =
  current_row :: "nat option"
  secret_code :: "color list option"
  current_color :: color
  start_time :: "real option"
  button_list :: "button list"
  feedback_label_list :: "color list list"
  start_button :: widget_state
  submit_button :: widget_state
  instructional_label :: label_text

text \<open>
  What a handler does besides changing the game object: the dialogs it opens (with the
  values interpolated into their messages), the answer the player gives to the
  play-again question, the diagnostic printed by an \<^verbatim>\<open>except\<close> branch, and the call of
  the \<^verbatim>\<open>play_again\<close> callback.
\<close>

datatype event =
    Print_something_has_gone_wrong
  | Showerror_invalid_submission
  | Showinfo_you_win nat int
  | Showwarning_you_lose "color list"
  | Askyesno_play_again bool
  | Call_play_again

text \<open>
  The result of a handler: the exception that left it, if any, the game object as it is at
  that moment, and the events in order.
\<close>

record outcome =
  raised :: "py_error option"
  game_after :: game
  events :: "event list"

definition finish :: "game \<Rightarrow> event list \<Rightarrow> outcome" where
  "finish g evs = \<lparr>raised = None, game_after = g, events = evs\<rparr>"

definition raise :: "py_error \<Rightarrow> game \<Rightarrow> event list \<Rightarrow> outcome" where
  "raise e g evs = \<lparr>raised = Some e, game_after = g, events = evs\<rparr>"

text \<open>\<^verbatim>\<open>__init__\<close> followed by \<^verbatim>\<open>initialize_gui\<close>.\<close>

definition init_game :: game where
  "init_game =
     \<lparr>current_row = None, secret_code = None, current_color = COLORS ! 0,
      start_time = None,
      button_list = replicate (ROWS * COLUMNS) \<lparr>background = ''gray'', state = DISABLED\<rparr>,
      feedback_label_list = replicate ROWS (replicate 4 ''black''),
      start_button = NORMAL, submit_button = DISABLED,
      instructional_label = Click_START_to_begin\<rparr>"

text \<open>The slice bounds of a row of the play area (row 0 of the game is the bottom row).\<close>

definition actual_row :: "nat \<Rightarrow> int" where
  "actual_row r = int ROWS - 1 - int r"

definition start_index :: "nat \<Rightarrow> int" where
  "start_index r = actual_row r * int COLUMNS"

definition end_index :: "nat \<Rightarrow> int" where
  "end_index r = (actual_row r + 1) * int COLUMNS"

definition activate_current_row :: "game \<Rightarrow> py_error option \<times> game" where
  "activate_current_row g =
     (case current_row g of
        None \<Rightarrow> (Some TypeError, g)
      | Some r \<Rightarrow>
          (None, g\<lparr>button_list :=
             configure_slice (\<lambda>b. b\<lparr>state := ACTIVE, background := ''SystemButtonFace''\<rparr>)
               (button_list g) (start_index r) (end_index r)\<rparr>))"

definition deactivate_current_row :: "game \<Rightarrow> py_error option \<times> game" where
  "deactivate_current_row g =
     (case current_row g of
        None \<Rightarrow> (Some TypeError, g)
      | Some r \<Rightarrow>
          (None, g\<lparr>button_list :=
             configure_slice (\<lambda>b. b\<lparr>state := DISABLED\<rparr>)
               (button_list g) (start_index r) (end_index r)\<rparr>))"

definition increment_current_row :: "game \<Rightarrow> py_error option \<times> game" where
  "increment_current_row g =
     (let (e1, g1) = (if current_row g \<noteq> None then deactivate_current_row g else (None, g))
      in if e1 \<noteq> None then (e1, g1)
         else activate_current_row
                (case current_row g1 of
                   None \<Rightarrow> g1\<lparr>current_row := Some 0\<rparr>
                 | Some r \<Rightarrow> g1\<lparr>current_row := Some (r + 1)\<rparr>))"

text \<open>
  \<^verbatim>\<open>start_game\<close>. The \<open>i\<close>-th call of \<^verbatim>\<open>random.choice(self.COLORS)\<close> returns the
  element of \<open>COLORS\<close> at the position the random source draws, \<open>rnd i\<close> reduced to the
  length of the list; \<open>now\<close> is the reading of \<^verbatim>\<open>time.time()\<close>.
\<close>

definition generate_secret_code :: "(nat \<Rightarrow> nat) \<Rightarrow> color list" where
  "generate_secret_code rnd =
     foldl (\<lambda>code i. code @ [COLORS ! (rnd i mod length COLORS)]) [] [0..<COLUMNS]"

definition start_game :: "(nat \<Rightarrow> nat) \<Rightarrow> real \<Rightarrow> game \<Rightarrow> py_error option \<times> game" where
  "start_game rnd now g =
     (let g1 = g\<lparr>start_button := DISABLED, submit_button := ACTIVE\<rparr>;
          g2 = g1\<lparr>secret_code := Some (generate_secret_code rnd)\<rparr>;
          (e, g3) = increment_current_row g2
      in if e \<noteq> None then (e, g3)
         else (None, g3\<lparr>instructional_label := Select_four_colors,
                         start_time := Some now\<rparr>))"

definition set_color :: "color \<Rightarrow> game \<Rightarrow> game" where
  "set_color c g = g\<lparr>current_color := c\<rparr>"

definition update_button_color :: "nat \<Rightarrow> nat \<Rightarrow> game \<Rightarrow> py_error option \<times> game" where
  "update_button_color row column g =
     (let index = row * COLUMNS + column
      in if length (button_list g) \<le> index then (Some IndexError, g)
         else (None, g\<lparr>button_list :=
                 (button_list g)[index := (button_list g ! index)
                                   \<lparr>background := current_color g\<rparr>]\<rparr>))"

text \<open>
  One of the two \<^verbatim>\<open>while\<close> loops that color the pegs: it colors as many labels as the count says, from
  position \<open>current_label\<close> on and returns the exception, the next position and the labels.
\<close>

fun color_pegs ::
  "color \<Rightarrow> nat \<Rightarrow> nat \<Rightarrow> color list \<Rightarrow> py_error option \<times> nat \<times> color list" where
  "color_pegs c 0 current_label feedback_labels = (None, current_label, feedback_labels)"
| "color_pegs c (Suc left) current_label feedback_labels =
     (if length feedback_labels \<le> current_label
      then (Some IndexError, current_label, feedback_labels)
      else color_pegs c left (Suc current_label) (feedback_labels[current_label := c]))"

definition update_feedback_grid ::
  "nat \<Rightarrow> nat \<Rightarrow> color list \<Rightarrow> py_error option \<times> color list" where
  "update_feedback_grid correct_color_cnt correct_location_color_cnt feedback_labels =
     (let (e1, current_label, labels1) = color_pegs ''red'' correct_color_cnt 0 feedback_labels
      in if e1 \<noteq> None then (e1, labels1)
         else (let (e2, current_label2, labels2) =
                     color_pegs ''white'' correct_location_color_cnt current_label labels1
               in (e2, labels2)))"

text \<open>
  The end of \<^verbatim>\<open>handle_submit\<close>: the win, the loss, or the next row. \<open>now\<close> is the reading
  of \<^verbatim>\<open>time.time()\<close> and \<open>answer\<close> the player's answer to the play-again question.
\<close>

definition play_again_dialog :: "bool \<Rightarrow> event list" where
  "play_again_dialog answer =
     Askyesno_play_again answer # (if answer then [Call_play_again] else [])"

definition handle_win :: "real \<Rightarrow> bool \<Rightarrow> event list \<Rightarrow> game \<Rightarrow> outcome" where
  "handle_win now answer evs g =
     (let (e1, g1) = deactivate_current_row g
      in if e1 \<noteq> None then raise (the e1) g1 evs
         else (let g2 = g1\<lparr>submit_button := DISABLED\<rparr>
               in case start_time g2 of
                    None \<Rightarrow> raise TypeError g2 evs
                  | Some t \<Rightarrow>
                      (case current_row g2 of
                         None \<Rightarrow> raise TypeError g2 evs
                       | Some r \<Rightarrow>
                           finish g2 (evs @ Showinfo_you_win (r + 1) (py_int (float_sub now t))
                                          # play_again_dialog answer))))"

definition handle_loss :: "bool \<Rightarrow> event list \<Rightarrow> game \<Rightarrow> outcome" where
  "handle_loss answer evs g =
     (let (e1, g1) = deactivate_current_row g
      in if e1 \<noteq> None then raise (the e1) g1 evs
         else (let g2 = g1\<lparr>submit_button := DISABLED\<rparr>
               in case secret_code g2 of
                    None \<Rightarrow> raise TypeError g2 evs
                  | Some code \<Rightarrow>
                      if length code < 4 then raise IndexError g2 evs
                      else finish g2 (evs @ Showwarning_you_lose
                                              [code ! 0, code ! 1, code ! 2, code ! 3]
                                          # play_again_dialog answer)))"

definition handle_turn_end :: "real \<Rightarrow> bool \<Rightarrow> bool \<Rightarrow> event list \<Rightarrow> game \<Rightarrow> outcome" where
  "handle_turn_end now answer has_won evs g =
     (if has_won then handle_win now answer evs g
      else if current_row g = Some (ROWS - 1) then handle_loss answer evs g
      else (let (e, g1) = increment_current_row g
            in if e \<noteq> None then raise (the e) g1 evs else finish g1 evs))"

text \<open>\<^verbatim>\<open>handle_submit\<close>, the command of the SUBMIT button.\<close>

definition submitted_colors_of :: "game \<Rightarrow> nat \<Rightarrow> color list" where
  "submitted_colors_of g r =
     map background (py_slice (button_list g) (start_index r) (end_index r))"

definition handle_submit :: "real \<Rightarrow> bool \<Rightarrow> game \<Rightarrow> outcome" where
  "handle_submit now answer g =
     (case current_row g of
        None \<Rightarrow> raise TypeError g []
      | Some r \<Rightarrow>
          (let submitted_colors = submitted_colors_of g r
           in if \<not> list_all (\<lambda>color. color \<in> set COLORS) submitted_colors
              then finish g [Showerror_invalid_submission]
              else
                (case secret_code g of
                   None \<Rightarrow> raise TypeError g []
                 | Some secret \<Rightarrow>
                     (case evaluate_submission secret submitted_colors of
                        Inl (e, n) \<Rightarrow> raise e g (replicate n Print_something_has_gone_wrong)
                      | Inr ev \<Rightarrow>
                          (let evs = replicate (printed ev) Print_something_has_gone_wrong;
                               g1 = g\<lparr>instructional_label :=
                                        Colors_correct (correct_location_color_count ev)
                                                       (correct_color_count ev)\<rparr>;
                               has_won = (correct_color_count ev = 4)
                           in case py_position (length (feedback_label_list g1))
                                     (actual_row r) of
                                None \<Rightarrow> raise IndexError g1 evs
                              | Some row \<Rightarrow>
                                  (let (e, labels) =
                                         update_feedback_grid (correct_color_count ev)
                                           (correct_location_color_count ev)
                                           (feedback_label_list g1 ! row);
                                       g2 = g1\<lparr>feedback_label_list :=
                                                 (feedback_label_list g1)[row := labels]\<rparr>
                                   in if e \<noteq> None then raise (the e) g2 evs
                                      else handle_turn_end now answer has_won evs g2))))))"

text \<open>
  A click on SUBMIT. The button was created with \<^verbatim>\<open>command=self.handle_submit\<close>; tkinter
  calls the command of a button only while the button is not disabled.
\<close>

definition click_submit :: "real \<Rightarrow> bool \<Rightarrow> game \<Rightarrow> outcome" where
  "click_submit now answer g =
     (if submit_button g = DISABLED then finish g [] else handle_submit now answer g)"

section \<open>The state the interface builds\<close>

text \<open>
  \<^verbatim>\<open>initialize_gui\<close> creates \<open>ROWS * COLUMNS\<close> play-area buttons and, for each row, a
  tuple of four feedback labels; no handler adds or removes a widget.
\<close>

definition well_formed :: "game \<Rightarrow> bool" where
  "well_formed g \<longleftrightarrow>
     length (button_list g) = ROWS * COLUMNS \<and>
     length (feedback_label_list g) = ROWS \<and>
     list_all (\<lambda>feedback_labels. length feedback_labels = 4) (feedback_label_list g)"

text \<open>
  A game in progress: started (a current row, a secret code of \<open>COLUMNS\<close> colors, a start
  time) and not yet won or lost (SUBMIT is active).
\<close>

definition in_progress :: "game \<Rightarrow> bool" where
  "in_progress g \<longleftrightarrow>
     well_formed g \<and>
     (case current_row g of None \<Rightarrow> False | Some r \<Rightarrow> r < ROWS) \<and>
     (case secret_code g of None \<Rightarrow> False | Some secret \<Rightarrow> length secret = COLUMNS) \<and>
     start_time g \<noteq> None \<and>
     submit_button g = ACTIVE"

section \<open>The scoring algorithm as the specification words it\<close>

text \<open>
  The specification's two passes over the positions \<open>0..COLUMNS-1\<close>: the first counts the
  exact matches, marks their positions settled and removes one occurrence of the color
  from the working copy of the secret; the second skips the settled positions and counts a
  color match, removing one occurrence, when the guessed color is in the working copy.
\<close>

record 'a spec_scoring =
  exactMatches :: nat
  colorMatches :: nat
  settled :: "nat set"
  remaining :: "'a list"

definition spec_first_pass :: "'a list \<Rightarrow> 'a list \<Rightarrow> nat \<Rightarrow> 'a spec_scoring \<Rightarrow> 'a spec_scoring" where
  "spec_first_pass guess secret i st =
     (if guess ! i = secret ! i
      then st\<lparr>exactMatches := exactMatches st + 1,
              settled := insert i (settled st),
              remaining := remove1 (guess ! i) (remaining st)\<rparr>
      else st)"

definition spec_second_pass :: "'a list \<Rightarrow> nat \<Rightarrow> 'a spec_scoring \<Rightarrow> 'a spec_scoring" where
  "spec_second_pass guess i st =
     (if i \<in> settled st then st
      else if guess ! i \<in> set (remaining st)
      then st\<lparr>colorMatches := colorMatches st + 1,
              remaining := remove1 (guess ! i) (remaining st)\<rparr>
      else st)"

definition spec_score :: "'a list \<Rightarrow> 'a list \<Rightarrow> nat \<times> nat" where
  "spec_score secret guess =
     (let st0 = \<lparr>exactMatches = 0, colorMatches = 0, settled = {}, remaining = secret\<rparr>;
          st1 = fold (spec_first_pass guess secret) [0..<COLUMNS] st0;
          st2 = fold (spec_second_pass guess) [0..<COLUMNS] st1
      in (exactMatches st2, colorMatches st2))"

text \<open>The same rearrangement of positions, given as the list of the source positions.\<close>

definition permute :: "nat list \<Rightarrow> 'a list \<Rightarrow> 'a list" where
  "permute p xs = map (\<lambda>i. xs ! i) p"

section \<open>Notions used in the proofs\<close>

text \<open>
  The pairs (guessed color, secret color) of the first \<open>k\<close> positions, split into those
  that agree and those that differ.
\<close>

definition matched :: "'a list \<Rightarrow> 'a list \<Rightarrow> nat \<Rightarrow> ('a \<times> 'a) list" where
  "matched G S k = filter (\<lambda>(g, s). g = s) (take k (zip G S))"

definition unmatched :: "'a list \<Rightarrow> 'a list \<Rightarrow> nat \<Rightarrow> ('a \<times> 'a) list" where
  "unmatched G S k = filter (\<lambda>(g, s). g \<noteq> s) (take k (zip G S))"

text \<open>What holds of the evaluation before iteration \<open>k\<close> of the first loop.\<close>

definition first_pass_inv :: "'a list \<Rightarrow> 'a list \<Rightarrow> nat \<Rightarrow> 'a evaluation \<Rightarrow> bool" where
  "first_pass_inv G S k ev \<longleftrightarrow>
     correct_color_count ev = length (matched G S k) \<and>
     correct_location_color_count ev = 0 \<and>
     correct_color_tracker ev = map (\<lambda>i. i < k \<and> G ! i = S ! i) [0..<COLUMNS] \<and>
     mset (remaining_colors ev) = mset (map snd (unmatched G S k)) + mset (drop k S) \<and>
     printed ev = 0"

text \<open>
  What holds before iteration \<open>k\<close> of the second loop, which starts from the evaluation
  \<open>ev1\<close> the first loop ended with.
\<close>

definition second_pass_inv ::
  "'a list \<Rightarrow> 'a list \<Rightarrow> 'a evaluation \<Rightarrow> nat \<Rightarrow> 'a evaluation \<Rightarrow> bool" where
  "second_pass_inv G S ev1 k ev \<longleftrightarrow>
     correct_color_count ev = correct_color_count ev1 \<and>
     correct_color_tracker ev = correct_color_tracker ev1 \<and>
     correct_location_color_count ev =
       size (mset (map fst (unmatched G S k)) \<inter># mset (remaining_colors ev1)) \<and>
     mset (remaining_colors ev) =
       mset (remaining_colors ev1) - mset (map fst (unmatched G S k)) \<and>
     printed ev = 0"

text \<open>
  The two counts as functions of the multiset of (guessed color, secret color) pairs: the
  pairs that agree, and the colors shared by the two sides of the pairs that differ.
\<close>

definition exact_pairs :: "('a \<times> 'a) multiset \<Rightarrow> nat" where
  "exact_pairs M = size (filter_mset (\<lambda>(g, s). g = s) M)"

definition color_pairs :: "('a \<times> 'a) multiset \<Rightarrow> nat" where
  "color_pairs M =
     size (image_mset fst (filter_mset (\<lambda>(g, s). g \<noteq> s) M) \<inter>#
           image_mset snd (filter_mset (\<lambda>(g, s). g \<noteq> s) M))"

text \<open>The source's evaluation and the specification's scoring state describe the same state.\<close>

definition corresponds :: "'a evaluation \<Rightarrow> 'a spec_scoring \<Rightarrow> bool" where
  "corresponds ev st \<longleftrightarrow>
     correct_color_count ev = exactMatches st \<and>
     correct_location_color_count ev = colorMatches st \<and>
     remaining_colors ev = remaining st \<and>
     correct_color_tracker ev = map (\<lambda>i. i \<in> settled st) [0..<COLUMNS]"

section \<open>Example inputs\<close>

text \<open>The secret code and the guess of the specification's duplicate-color example.\<close>

definition example_secret :: "color list" where
  "example_secret = [''red'', ''red'', ''blue'', ''green'']"

definition example_guess :: "color list" where
  "example_guess = [''red'', ''blue'', ''red'', ''yellow'']"

text \<open>A guess that agrees with that secret on the two positions of its repeated color.\<close>

definition repeated_guess :: "color list" where
  "repeated_guess = [''red'', ''red'', ''green'', ''blue'']"

text \<open>
  A random source whose four draws give that secret code, the game started with it at
  time \<open>0\<close>, and the player entering a guess in the current row: for each column a click
  on the palette and a click on the button of the row.
\<close>

definition example_rnd :: "nat \<Rightarrow> nat" where
  "example_rnd i = (if i = 0 then 0 else if i = 1 then 0 else if i = 2 then 1 else 4)"

definition started_game :: game where
  "started_game = snd (start_game example_rnd 0 init_game)"

definition enter_guess :: "color list \<Rightarrow> game \<Rightarrow> game" where
  "enter_guess colors g =
     (case current_row g of
        None \<Rightarrow> g
      | Some r \<Rightarrow>
          fold (\<lambda>(column, c) g'. snd (update_button_color (nat (actual_row r)) column
                                        (set_color c g')))
            (zip [0..<length colors] colors) g)"

text \<open>
  The game after the player has entered the secret code itself in the first row and
  clicked SUBMIT at time \<open>3/2\<close>, answering no to the play-again question; and a guess
  that leaves the last column of the row empty.
\<close>

definition won_game :: game where
  "won_game = game_after (handle_submit (3 / 2) False (enter_guess example_secret started_game))"

definition short_guess :: "color list" where
  "short_guess = [''red'', ''blue'', ''green'']"

text \<open>A game in progress whose current row is the last one, \<open>ROWS - 1\<close>.\<close>

definition last_row_game :: game where
  "last_row_game = snd (activate_current_row (started_game\<lparr>current_row := Some (ROWS - 1)\<rparr>))"

section \<open>Python list operations\<close>

lemma py_index_None: "py_index xs x = None \<longleftrightarrow> x \<notin> set xs"
  by (induction xs) (auto split: option.splits)

lemma py_index_pop: "py_index xs x = Some k \<Longrightarrow> py_pop xs k = remove1 x xs"
  by (induction xs arbitrary: k) (auto simp: py_pop_def split: option.splits if_splits)

lemma for_range_append:
  "for_range body (xs @ ys) s =
     (case for_range body xs s of Inl e \<Rightarrow> Inl e | Inr s' \<Rightarrow> for_range body ys s')"
  by (induction xs arbitrary: s) (auto split: sum.splits)

section \<open>Float subtraction\<close>

lemma scale_significand_double:
  "4503599627370496 \<le> m * 2 ^ j \<Longrightarrow> m * 2 ^ j < 9007199254740992 \<Longrightarrow>
   - 1074 \<le> k - int j \<Longrightarrow> int j < steps \<Longrightarrow>
   scale_significand steps m k = (m * 2 ^ j, k - int j)"
proof (induction j arbitrary: steps m k)
  case 0
  then show ?case by (subst scale_significand.simps) simp
next
  case (Suc j)
  have pos: "0 < m"
  proof (rule ccontr)
    assume "\<not> 0 < m"
    then have "m * 2 ^ Suc j \<le> 0" by (simp add: mult_le_0_iff)
    with Suc.prems(1) show False by simp
  qed
  have "(1::real) \<le> 2 ^ j" by simp
  with pos have "m * 2 \<le> m * 2 * 2 ^ j" by simp
  with Suc.prems(2) have small: "m < 4503599627370496" by simp
  from Suc.prems have
    "scale_significand (steps - 1) (m * 2) (k - 1) = (m * 2 * 2 ^ j, k - 1 - int j)"
    by (intro Suc.IH) (simp_all add: mult.assoc)
  with small Suc.prems(3,4) show ?case
    by (subst scale_significand.simps) (simp add: mult.assoc)
qed

lemma float_sub_readings:
  "float_sub (4559894622712627 / 2 ^ 49) (3602879701896397 / 2 ^ 55) = 8 \<and>
   py_int (4559894622712627 / 2 ^ 49 - 3602879701896397 / 2 ^ 55) = 7"
proof
  have d: "(4559894622712627 / 2 ^ 49 - 3602879701896397 / 2 ^ 55 :: real) =
           288230376151711731 / 36028797018963968"
    by simp
  have s: "scale_significand 2200 (288230376151711731 / 36028797018963968) 0 =
           (288230376151711731 / 36028797018963968 * 2 ^ 50, 0 - int 50)"
    by (rule scale_significand_double) simp_all
  have m: "(288230376151711731 / 36028797018963968 * 2 ^ 50 :: real) = 288230376151711731 / 32"
    by simp
  have r: "round_half_even (288230376151711731 / 32) = 9007199254740992"
    by (simp add: round_half_even_def Let_def)
  show "float_sub (4559894622712627 / 2 ^ 49) (3602879701896397 / 2 ^ 55) = 8"
    unfolding float_sub_def d float_round_def
    by (simp add: s m r two_to_the_def)
  show "py_int (4559894622712627 / 2 ^ 49 - 3602879701896397 / 2 ^ 55) = 7"
    unfolding d by (simp add: py_int_def)
qed

section \<open>The first loop\<close>

lemma matched_Suc:
  "k < length G \<Longrightarrow> k < length S \<Longrightarrow>
   matched G S (Suc k) = matched G S k @ (if G ! k = S ! k then [(G ! k, S ! k)] else [])"
  by (simp add: matched_def take_Suc_conv_app_nth)

lemma unmatched_Suc:
  "k < length G \<Longrightarrow> k < length S \<Longrightarrow>
   unmatched G S (Suc k) = unmatched G S k @ (if G ! k = S ! k then [] else [(G ! k, S ! k)])"
  by (simp add: unmatched_def take_Suc_conv_app_nth)

lemma first_pass_inv_start: "first_pass_inv G S 0 (start_evaluation S)"
  by (simp add: first_pass_inv_def start_evaluation_def matched_def unmatched_def
      list_eq_iff_nth_eq)

lemma tracker_update:
  "k < n \<Longrightarrow> P k \<Longrightarrow> (map (\<lambda>i. i < k \<and> P i) [0..<n])[k := True] = map (\<lambda>i. i < Suc k \<and> P i) [0..<n]"
  by (rule nth_equalityI) (auto simp: nth_list_update less_Suc_eq)

lemma tracker_keep:
  "\<not> P k \<Longrightarrow> map (\<lambda>i. i < k \<and> P i) [0..<n] = map (\<lambda>i. i < Suc k \<and> P i) [0..<n]"
  by (auto simp: less_Suc_eq)

lemma first_pass_step:
  assumes "k < length G" "k < length S" "k < COLUMNS" "first_pass_inv G S k ev"
  shows "\<exists>ev'. first_pass_body G S k ev = Inr ev' \<and> first_pass_inv G S (Suc k) ev'"
proof (cases "G ! k = S ! k")
  case False
  with assms show ?thesis
    by (simp add: first_pass_body_def first_pass_inv_def matched_Suc unmatched_Suc
        tracker_keep [of "\<lambda>i. G ! i = S ! i"] Cons_nth_drop_Suc [symmetric])
next
  case True
  from assms have "S ! k \<in># mset (remaining_colors ev)"
    by (simp add: first_pass_inv_def Cons_nth_drop_Suc [symmetric])
  then have "S ! k \<in> set (remaining_colors ev)" by simp
  then obtain j where j: "py_index (remaining_colors ev) (S ! k) = Some j"
    using py_index_None [of "remaining_colors ev" "S ! k"] by (cases "py_index (remaining_colors ev) (S ! k)") auto
  from assms have m: "mset (remaining_colors ev) = mset (map snd (unmatched G S k)) + mset (drop k S)"
    by (simp add: first_pass_inv_def)
  have d: "mset (drop k S) = add_mset (S ! k) (mset (drop (Suc k) S))"
    using assms(2) by (simp add: Cons_nth_drop_Suc [symmetric])
  show ?thesis using True assms j
    by (simp add: first_pass_body_def first_pass_inv_def matched_Suc unmatched_Suc
        tracker_update [of k COLUMNS "\<lambda>i. G ! i = S ! i"] py_index_pop m d)
qed

lemma first_pass_loop:
  "k \<le> length G \<Longrightarrow> k \<le> length S \<Longrightarrow> k \<le> COLUMNS \<Longrightarrow>
   \<exists>ev. for_range (first_pass_body G S) [0..<k] (start_evaluation S) = Inr ev \<and>
        first_pass_inv G S k ev"
proof (induction k)
  case 0
  then show ?case by (simp add: first_pass_inv_start)
next
  case (Suc k)
  then obtain ev where ev: "for_range (first_pass_body G S) [0..<k] (start_evaluation S) = Inr ev"
    "first_pass_inv G S k ev" by auto
  from Suc.prems ev(2) obtain ev' where "first_pass_body G S k ev = Inr ev'"
    "first_pass_inv G S (Suc k) ev'"
    using first_pass_step [of k G S ev] by auto
  with ev show ?case by (simp add: for_range_append)
qed

section \<open>The second loop\<close>

lemma size_diff_inter: "size (B - A) + size (A \<inter># B) = size (B :: 'a multiset)"
proof -
  have d: "B - A = B - (A \<inter># B)"
    by (rule multiset_eqI) simp
  have s: "A \<inter># B \<subseteq># B" by simp
  have "size (B - (A \<inter># B)) = size B - size (A \<inter># B)"
    using s by (rule size_Diff_submset)
  moreover have "size (A \<inter># B) \<le> size B" using s by (rule size_mset_mono)
  ultimately show ?thesis unfolding d by linarith
qed

lemma inter_add_left_diff:
  "add_mset x U \<inter># R = (if x \<in># R - U then add_mset x (U \<inter># R) else U \<inter># R)"
  by (rule multiset_eqI) (auto simp: in_diff_count)

lemma remove1_diff_add: "mset rem = R - U \<Longrightarrow> mset (remove1 x rem) = R - add_mset x U"
  by (rule multiset_eqI) simp

lemma diff_add_absent: "x \<notin># R - U \<Longrightarrow> R - add_mset x U = R - U"
  by (rule multiset_eqI) (auto simp: in_diff_count)

lemma second_pass_step:
  assumes "k < length G" "length G = length S" "length G \<le> COLUMNS"
    "first_pass_inv G S (length G) ev1" "second_pass_inv G S ev1 k ev"
  shows "\<exists>ev'. second_pass_body G k ev = Inr ev' \<and> second_pass_inv G S ev1 (Suc k) ev'"
proof -
  from assms have t: "correct_color_tracker ev = map (\<lambda>i. i < length G \<and> G ! i = S ! i) [0..<COLUMNS]"
    by (simp add: first_pass_inv_def second_pass_inv_def)
  from assms have k: "k < COLUMNS" "k < length S" by simp_all
  from t k assms(1) have tk: "correct_color_tracker ev ! k \<longleftrightarrow> G ! k = S ! k"
    "length (correct_color_tracker ev) = COLUMNS" by simp_all
  show ?thesis
  proof (cases "G ! k = S ! k")
    case True
    with assms k tk show ?thesis
      by (simp add: second_pass_body_def second_pass_inv_def unmatched_Suc)
  next
    case False
    from assms have m: "mset (remaining_colors ev) =
       mset (remaining_colors ev1) - mset (map fst (unmatched G S k))"
      by (simp add: second_pass_inv_def)
    have mem: "G ! k \<in> set (remaining_colors ev) \<longleftrightarrow>
       G ! k \<in># mset (remaining_colors ev1) - mset (map fst (unmatched G S k))"
      using m by (metis set_mset_mset)
    show ?thesis
    proof (cases "G ! k \<in> set (remaining_colors ev)")
      case True
      then obtain j where j: "py_index (remaining_colors ev) (G ! k) = Some j"
        using py_index_None [of "remaining_colors ev" "G ! k"]
        by (cases "py_index (remaining_colors ev) (G ! k)") auto
      from True mem have g: "G ! k \<in># mset (remaining_colors ev1) - mset (map fst (unmatched G S k))"
        by simp
      let ?ev' = "ev\<lparr>correct_location_color_count := correct_location_color_count ev + 1,
                     remaining_colors := remove1 (G ! k) (remaining_colors ev)\<rparr>"
      have body: "second_pass_body G k ev = Inr ?ev'"
        using \<open>G ! k \<noteq> S ! k\<close> True assms(1) k tk j
        by (simp add: second_pass_body_def py_index_pop)
      have u: "map fst (unmatched G S (Suc k)) = map fst (unmatched G S k) @ [G ! k]"
        using \<open>G ! k \<noteq> S ! k\<close> assms(1) k by (simp add: unmatched_Suc)
      have r: "mset (remove1 (G ! k) (remaining_colors ev)) =
               mset (remaining_colors ev1) - mset (map fst (unmatched G S (Suc k)))"
        unfolding u using remove1_diff_add [OF m, of "G ! k"] by (simp del: mset_remove1)
      have c: "size (mset (map fst (unmatched G S (Suc k))) \<inter># mset (remaining_colors ev1)) =
               size (mset (map fst (unmatched G S k)) \<inter># mset (remaining_colors ev1)) + 1"
        unfolding u using g by (simp add: inter_add_left_diff)
      have "second_pass_inv G S ev1 (Suc k) ?ev'"
        using assms(5) r c unfolding second_pass_inv_def by (simp del: mset_remove1)
      with body show ?thesis by blast
    next
      case False
      with mem have "\<not> G ! k \<in># mset (remaining_colors ev1) - mset (map fst (unmatched G S k))"
        by simp
      with \<open>G ! k \<noteq> S ! k\<close> False assms k tk show ?thesis
        by (simp add: second_pass_body_def second_pass_inv_def unmatched_Suc
            inter_add_left_diff diff_add_absent)
    qed
  qed
qed

lemma second_pass_inv_start:
  "first_pass_inv G S (length G) ev1 \<Longrightarrow> second_pass_inv G S ev1 0 ev1"
  by (simp add: first_pass_inv_def second_pass_inv_def unmatched_def)

lemma second_pass_loop:
  assumes "length G = length S" "length G \<le> COLUMNS" "first_pass_inv G S (length G) ev1"
  shows "k \<le> length G \<Longrightarrow>
   \<exists>ev. for_range (second_pass_body G) [0..<k] ev1 = Inr ev \<and> second_pass_inv G S ev1 k ev"
proof (induction k)
  case 0
  with assms show ?case by (simp add: second_pass_inv_start)
next
  case (Suc k)
  then obtain ev where ev: "for_range (second_pass_body G) [0..<k] ev1 = Inr ev"
    "second_pass_inv G S ev1 k ev" by auto
  from Suc.prems assms ev(2) obtain ev' where "second_pass_body G k ev = Inr ev'"
    "second_pass_inv G S ev1 (Suc k) ev'"
    using second_pass_step [of k G S ev1 ev] by auto
  with ev show ?case by (simp add: for_range_append)
qed

lemma evaluate_submission_closed_form:
  assumes "length G = length S" "length S \<le> COLUMNS"
  shows "\<exists>ev. evaluate_submission S G = Inr ev \<and>
     correct_color_count ev = exact_pairs (mset (zip G S)) \<and>
     correct_location_color_count ev = color_pairs (mset (zip G S)) \<and>
     mset (remaining_colors ev) =
       image_mset snd (filter_mset (\<lambda>(g, s). g \<noteq> s) (mset (zip G S))) -
       image_mset fst (filter_mset (\<lambda>(g, s). g \<noteq> s) (mset (zip G S))) \<and>
     printed ev = 0"
proof -
  from assms obtain ev1 where ev1:
    "for_range (first_pass_body G S) [0..<length G] (start_evaluation S) = Inr ev1"
    "first_pass_inv G S (length G) ev1"
    using first_pass_loop [of "length G" G S] by auto
  from assms ev1(2) obtain ev where ev:
    "for_range (second_pass_body G) [0..<length G] ev1 = Inr ev"
    "second_pass_inv G S ev1 (length G) ev"
    using second_pass_loop [of G S ev1 "length G"] by auto
  have e: "evaluate_submission S G = Inr ev"
    using ev1(1) ev(1) by (simp add: evaluate_submission_def)
  from assms ev1(2) have r: "mset (remaining_colors ev1) = mset (map snd (unmatched G S (length G)))"
    by (simp add: first_pass_inv_def)
  have z: "take (length G) (zip G S) = zip G S" using assms by simp
  have x: "length (matched G S (length G)) = exact_pairs (mset (zip G S))"
    unfolding matched_def z exact_pairs_def by (simp flip: mset_filter)
  have y: "size (mset (map fst (unmatched G S (length G))) \<inter>#
                 mset (map snd (unmatched G S (length G)))) = color_pairs (mset (zip G S))"
    unfolding unmatched_def z color_pairs_def by simp
  have w: "mset (map snd (unmatched G S (length G))) - mset (map fst (unmatched G S (length G))) =
       image_mset snd (filter_mset (\<lambda>(g, s). g \<noteq> s) (mset (zip G S))) -
       image_mset fst (filter_mset (\<lambda>(g, s). g \<noteq> s) (mset (zip G S)))"
    unfolding unmatched_def z by simp
  from ev1(2) ev(2) have "correct_color_count ev = exact_pairs (mset (zip G S))"
    by (simp add: first_pass_inv_def second_pass_inv_def x)
  moreover from ev(2) have "correct_location_color_count ev = color_pairs (mset (zip G S))"
    unfolding second_pass_inv_def r y [symmetric] by simp
  moreover from ev(2) have "mset (remaining_colors ev) =
       image_mset snd (filter_mset (\<lambda>(g, s). g \<noteq> s) (mset (zip G S))) -
       image_mset fst (filter_mset (\<lambda>(g, s). g \<noteq> s) (mset (zip G S)))"
    unfolding second_pass_inv_def r w [symmetric] by simp
  moreover from ev(2) have "printed ev = 0" by (simp add: second_pass_inv_def)
  ultimately show ?thesis using e by simp
qed

section \<open>The evaluation follows the specification's two passes\<close>

lemma first_pass_body_present:
  assumes "k < length G" "k < length S" "k < length (correct_color_tracker ev)"
    "G ! k = S ! k \<longrightarrow> S ! k \<in> set (remaining_colors ev)"
  shows "first_pass_body G S k ev =
     Inr (if G ! k = S ! k
          then ev\<lparr>correct_color_count := correct_color_count ev + 1,
                  remaining_colors := remove1 (G ! k) (remaining_colors ev),
                  correct_color_tracker := (correct_color_tracker ev)[k := True]\<rparr>
          else ev)"
proof (cases "G ! k = S ! k")
  case False
  with assms show ?thesis by (simp add: first_pass_body_def)
next
  case True
  with assms obtain j where "py_index (remaining_colors ev) (G ! k) = Some j"
    using py_index_None [of "remaining_colors ev" "G ! k"]
    by (cases "py_index (remaining_colors ev) (G ! k)") auto
  with True assms show ?thesis
    by (simp add: first_pass_body_def py_index_pop)
qed

lemma second_pass_body_eq:
  assumes "k < length G" "k < length (correct_color_tracker ev)"
  shows "second_pass_body G k ev =
     Inr (if correct_color_tracker ev ! k then ev
          else if G ! k \<in> set (remaining_colors ev)
          then ev\<lparr>correct_location_color_count := correct_location_color_count ev + 1,
                  remaining_colors := remove1 (G ! k) (remaining_colors ev)\<rparr>
          else ev)"
proof (cases "G ! k \<in> set (remaining_colors ev)")
  case False
  with assms show ?thesis by (simp add: second_pass_body_def)
next
  case True
  then obtain j where "py_index (remaining_colors ev) (G ! k) = Some j"
    using py_index_None [of "remaining_colors ev" "G ! k"]
    by (cases "py_index (remaining_colors ev) (G ! k)") auto
  with True assms show ?thesis
    by (simp add: second_pass_body_def py_index_pop)
qed

lemma first_pass_inv_present:
  "first_pass_inv G S k ev \<Longrightarrow> k < length S \<Longrightarrow> S ! k \<in> set (remaining_colors ev)"
proof -
  assume a: "first_pass_inv G S k ev" "k < length S"
  then have "S ! k \<in># mset (remaining_colors ev)"
    by (simp add: first_pass_inv_def Cons_nth_drop_Suc [symmetric])
  then show ?thesis by simp
qed

lemma settled_update:
  "k < n \<Longrightarrow> (map (\<lambda>i. i \<in> A) [0..<n])[k := True] = map (\<lambda>i. i \<in> insert k A) [0..<n]"
  by (rule nth_equalityI) (auto simp: nth_list_update)

lemma first_pass_corresponds:
  assumes "length G = COLUMNS" "length S = COLUMNS"
  shows "k \<le> COLUMNS \<Longrightarrow>
    \<exists>ev. for_range (first_pass_body G S) [0..<k] (start_evaluation S) = Inr ev \<and>
         first_pass_inv G S k ev \<and>
         corresponds ev (fold (spec_first_pass G S) [0..<k]
           \<lparr>exactMatches = 0, colorMatches = 0, settled = {}, remaining = S\<rparr>)"
proof (induction k)
  case 0
  show ?case
    by (simp add: first_pass_inv_start) (simp add: corresponds_def start_evaluation_def list_eq_iff_nth_eq)
next
  case (Suc k)
  let ?st = "fold (spec_first_pass G S) [0..<k]
           \<lparr>exactMatches = 0, colorMatches = 0, settled = {}, remaining = S\<rparr>"
  from Suc obtain ev where ev:
    "for_range (first_pass_body G S) [0..<k] (start_evaluation S) = Inr ev"
    "first_pass_inv G S k ev" "corresponds ev ?st" by auto
  from Suc.prems assms have k: "k < length G" "k < length S" "k < COLUMNS" by simp_all
  from ev(2) k obtain ev' where ev': "first_pass_body G S k ev = Inr ev'"
    "first_pass_inv G S (Suc k) ev'"
    using first_pass_step [of k G S ev] by auto
  from ev(3) k have t: "k < length (correct_color_tracker ev)" by (simp add: corresponds_def)
  have "first_pass_body G S k ev =
     Inr (if G ! k = S ! k
          then ev\<lparr>correct_color_count := correct_color_count ev + 1,
                  remaining_colors := remove1 (G ! k) (remaining_colors ev),
                  correct_color_tracker := (correct_color_tracker ev)[k := True]\<rparr>
          else ev)"
    using first_pass_body_present [OF k(1,2) t] first_pass_inv_present [OF ev(2) k(2)] by simp
  with ev' ev(3) k(3) have "corresponds ev' (spec_first_pass G S k ?st)"
    by (auto simp: corresponds_def spec_first_pass_def settled_update)
  with ev ev' show ?case by (simp add: for_range_append)
qed

lemma second_pass_corresponds:
  assumes "length G = COLUMNS" "corresponds ev1 st1"
  shows "k \<le> COLUMNS \<Longrightarrow>
    \<exists>ev. for_range (second_pass_body G) [0..<k] ev1 = Inr ev \<and>
         corresponds ev (fold (spec_second_pass G) [0..<k] st1)"
proof (induction k)
  case 0
  with assms show ?case by simp
next
  case (Suc k)
  let ?st = "fold (spec_second_pass G) [0..<k] st1"
  from Suc obtain ev where ev:
    "for_range (second_pass_body G) [0..<k] ev1 = Inr ev" "corresponds ev ?st" by auto
  from Suc.prems assms have k: "k < length G" "k < COLUMNS" by simp_all
  from ev(2) k have t: "k < length (correct_color_tracker ev)" by (simp add: corresponds_def)
  from ev(2) k have "corresponds
     (if correct_color_tracker ev ! k then ev
          else if G ! k \<in> set (remaining_colors ev)
          then ev\<lparr>correct_location_color_count := correct_location_color_count ev + 1,
                  remaining_colors := remove1 (G ! k) (remaining_colors ev)\<rparr>
          else ev) (spec_second_pass G k ?st)"
    by (auto simp: corresponds_def spec_second_pass_def)
  with ev show ?case
    by (simp add: for_range_append second_pass_body_eq [OF k(1) t])
qed

lemma evaluate_submission_spec_score:
  assumes "length S = COLUMNS" "length G = COLUMNS"
  shows "\<exists>ev. evaluate_submission S G = Inr ev \<and>
     (correct_color_count ev, correct_location_color_count ev) = spec_score S G"
proof -
  let ?st0 = "\<lparr>exactMatches = 0, colorMatches = 0, settled = {}, remaining = S\<rparr>"
  let ?st1 = "fold (spec_first_pass G S) [0..<COLUMNS] ?st0"
  from assms obtain ev1 where ev1:
    "for_range (first_pass_body G S) [0..<COLUMNS] (start_evaluation S) = Inr ev1"
    "corresponds ev1 ?st1"
    using first_pass_corresponds [of G S COLUMNS] by auto
  from assms(2) ev1(2) obtain ev where ev:
    "for_range (second_pass_body G) [0..<COLUMNS] ev1 = Inr ev"
    "corresponds ev (fold (spec_second_pass G) [0..<COLUMNS] ?st1)"
    using second_pass_corresponds [of G ev1 ?st1 COLUMNS] by auto
  from ev1(1) ev(1) assms have "evaluate_submission S G = Inr ev"
    by (simp add: evaluate_submission_def)
  moreover from ev(2) have
    "(correct_color_count ev, correct_location_color_count ev) = spec_score S G"
    by (simp add: corresponds_def spec_score_def Let_def)
  ultimately show ?thesis by simp
qed

section \<open>Bounds and rearrangements\<close>

lemma color_pairs_le: "color_pairs M \<le> size (filter_mset (\<lambda>(g, s). g \<noteq> s) M)"
proof -
  have "color_pairs M \<le> size (image_mset snd (filter_mset (\<lambda>(g, s). g \<noteq> s) M))"
    unfolding color_pairs_def by (rule size_mset_mono) simp
  then show ?thesis by simp
qed

lemma exact_color_pairs_le: "exact_pairs M + color_pairs M \<le> size M"
proof -
  let ?P = "\<lambda>(g, s). g = s"
  have n: "(\<lambda>x. \<not> ?P x) = (\<lambda>(g, s). g \<noteq> s)" by (simp add: fun_eq_iff)
  have "size M = size (filter_mset ?P M + filter_mset (\<lambda>x. \<not> ?P x) M)"
    by (rule arg_cong [OF multiset_partition [of M ?P], of size])
  then have "size M = size (filter_mset ?P M) + size (filter_mset (\<lambda>(g, s). g \<noteq> s) M)"
    unfolding n by (simp only: size_union)
  with color_pairs_le [of M] show ?thesis unfolding exact_pairs_def by linarith
qed

lemma zip_as_map: "length G = length S \<Longrightarrow> zip G S = map (\<lambda>i. (G ! i, S ! i)) [0..<length S]"
  by (rule nth_equalityI) simp_all

lemma mset_zip_permute:
  assumes "length G = length S" "mset p = mset [0..<length S]"
  shows "mset (zip (permute p G) (permute p S)) = mset (zip G S)"
proof -
  have "zip (permute p G) (permute p S) = map (\<lambda>i. (G ! i, S ! i)) p"
    by (simp add: permute_def zip_map_map zip_same_conv_map)
  then have "mset (zip (permute p G) (permute p S)) = image_mset (\<lambda>i. (G ! i, S ! i)) (mset p)"
    by simp
  also have "\<dots> = mset (map (\<lambda>i. (G ! i, S ! i)) [0..<length S])"
    unfolding assms(2) by simp
  also have "\<dots> = mset (zip G S)" using zip_as_map [OF assms(1)] by simp
  finally show ?thesis .
qed

lemma length_permute: "length (permute p xs) = length p"
  by (simp add: permute_def)

lemma remaining_size:
  fixes M :: "('a \<times> 'a) multiset"
  shows "exact_pairs M + color_pairs M +
     size (image_mset snd (filter_mset (\<lambda>(g, s). g \<noteq> s) M) -
           image_mset fst (filter_mset (\<lambda>(g, s). g \<noteq> s) M)) = size M"
proof -
  let ?P = "\<lambda>(g, s). g = s"
  let ?N = "filter_mset (\<lambda>(g, s). g \<noteq> s) M"
  have n: "(\<lambda>x. \<not> ?P x) = (\<lambda>(g, s). g \<noteq> s)" by (simp add: fun_eq_iff)
  have "size M = size (filter_mset ?P M + filter_mset (\<lambda>x. \<not> ?P x) M)"
    by (rule arg_cong [OF multiset_partition [of M ?P], of size])
  then have p: "size M = size (filter_mset ?P M) + size ?N"
    unfolding n by (simp only: size_union)
  have "size (image_mset snd ?N - image_mset fst ?N) +
        size (image_mset fst ?N \<inter># image_mset snd ?N) = size (image_mset snd ?N)"
    by (rule size_diff_inter)
  then have "size (image_mset snd ?N - image_mset fst ?N) + color_pairs M = size ?N"
    unfolding color_pairs_def by simp
  with p show ?thesis unfolding exact_pairs_def by linarith
qed

lemma remaining_subset:
  assumes "length G = length S"
  shows "image_mset snd (filter_mset (\<lambda>(g, s). g \<noteq> s) (mset (zip G S))) -
         image_mset fst (filter_mset (\<lambda>(g, s). g \<noteq> s) (mset (zip G S))) \<subseteq># mset S"
proof -
  let ?N = "filter_mset (\<lambda>(g, s). g \<noteq> s) (mset (zip G S))"
  have "image_mset snd ?N \<subseteq># image_mset snd (mset (zip G S))"
    by (rule image_mset_subseteq_mono) simp
  also have "image_mset snd (mset (zip G S)) = mset (map snd (zip G S))" by simp
  also have "map snd (zip G S) = S" using assms by simp
  finally have "image_mset snd ?N \<subseteq># mset S" .
  moreover have "image_mset snd ?N - image_mset fst ?N \<subseteq># image_mset snd ?N"
    by (rule diff_subset_eq_self)
  ultimately show ?thesis by (rule subset_mset.order_trans [rotated])
qed

section \<open>The handlers on a well-formed game\<close>

lemma slice_index_le: "slice_index n i \<le> n"
  unfolding slice_index_def by (cases "i < 0") auto

lemma length_configure_slice: "length (configure_slice f xs s e) = length xs"
proof -
  let ?a = "slice_index (length xs) s" and ?b = "slice_index (length xs) e"
  have "?a \<le> length xs" "?b \<le> length xs" by (rule slice_index_le)+
  then show ?thesis by (auto simp: configure_slice_def Let_def min_def)
qed

lemma slice_index_start:
  "r < ROWS \<Longrightarrow> slice_index (ROWS * COLUMNS) (start_index r) = (ROWS - 1 - r) * COLUMNS"
  by (simp add: slice_index_def start_index_def actual_row_def ROWS_def COLUMNS_def)

lemma slice_index_end:
  "r < ROWS \<Longrightarrow> slice_index (ROWS * COLUMNS) (end_index r) = (ROWS - 1 - r) * COLUMNS + COLUMNS"
  by (simp add: slice_index_def end_index_def actual_row_def ROWS_def COLUMNS_def)

lemma length_submitted_colors:
  assumes "well_formed g" "r < ROWS"
  shows "length (submitted_colors_of g r) = COLUMNS"
proof -
  from assms(1) have l: "length (button_list g) = ROWS * COLUMNS" by (simp add: well_formed_def)
  from assms(2) have "(ROWS - 1 - r) * COLUMNS + COLUMNS \<le> ROWS * COLUMNS"
    by (simp add: ROWS_def COLUMNS_def)
  then show ?thesis
    by (simp add: submitted_colors_of_def py_slice_def l slice_index_start [OF assms(2)]
        slice_index_end [OF assms(2)])
qed

lemma py_position_row: "r < ROWS \<Longrightarrow> py_position ROWS (actual_row r) = Some (ROWS - 1 - r)"
  by (auto simp: py_position_def actual_row_def ROWS_def Let_def)

lemma color_pegs_in_range:
  "current_label + n \<le> length feedback_labels \<Longrightarrow>
   \<exists>labels. color_pegs c n current_label feedback_labels = (None, current_label + n, labels) \<and>
            length labels = length feedback_labels"
proof (induction n arbitrary: current_label feedback_labels)
  case 0
  then show ?case by simp
next
  case (Suc n)
  from Suc.prems have "Suc current_label + n \<le> length (feedback_labels[current_label := c])"
    by simp
  from Suc.IH [OF this] Suc.prems show ?case by simp
qed

lemma update_feedback_grid_in_range:
  assumes "x + y \<le> length feedback_labels"
  shows "\<exists>labels. update_feedback_grid x y feedback_labels = (None, labels) \<and>
            length labels = length feedback_labels"
proof -
  from assms obtain l1 where l1: "color_pegs ''red'' x 0 feedback_labels = (None, x, l1)"
    "length l1 = length feedback_labels"
    using color_pegs_in_range [of 0 x feedback_labels "''red''"] by auto
  with assms obtain l2 where l2: "color_pegs ''white'' y x l1 = (None, x + y, l2)"
    "length l2 = length feedback_labels"
    using color_pegs_in_range [of x y l1 "''white''"] by auto
  from l1 l2 show ?thesis by (simp add: update_feedback_grid_def)
qed

lemma deactivate_current_row_eq:
  "current_row g = Some r \<Longrightarrow>
   deactivate_current_row g =
     (None, g\<lparr>button_list := configure_slice (\<lambda>b. b\<lparr>state := DISABLED\<rparr>)
               (button_list g) (start_index r) (end_index r)\<rparr>)"
  by (simp add: deactivate_current_row_def)

lemma code_of_four: "length code = 4 \<Longrightarrow> [code ! 0, code ! 1, code ! 2, code ! 3] = code"
  by (rule nth_equalityI) (auto simp: less_Suc_eq eval_nat_numeral)

lemma handle_win_eq:
  assumes "current_row g = Some r" "start_time g = Some t"
  shows "handle_win now answer evs g =
     finish (g\<lparr>button_list := configure_slice (\<lambda>b. b\<lparr>state := DISABLED\<rparr>)
                 (button_list g) (start_index r) (end_index r),
               submit_button := DISABLED\<rparr>)
       (evs @ Showinfo_you_win (r + 1) (py_int (float_sub now t)) # play_again_dialog answer)"
  using assms by (simp add: handle_win_def deactivate_current_row_eq)

lemma handle_loss_eq:
  assumes "current_row g = Some r" "secret_code g = Some code" "length code = COLUMNS"
  shows "handle_loss answer evs g =
     finish (g\<lparr>button_list := configure_slice (\<lambda>b. b\<lparr>state := DISABLED\<rparr>)
                 (button_list g) (start_index r) (end_index r),
               submit_button := DISABLED\<rparr>)
       (evs @ Showwarning_you_lose code # play_again_dialog answer)"
  using assms code_of_four [of code]
  by (simp add: handle_loss_def deactivate_current_row_eq COLUMNS_def)

lemma increment_current_row_eq:
  assumes "current_row g = Some r"
  shows "increment_current_row g =
     (None, g\<lparr>current_row := Some (r + 1),
              button_list :=
                configure_slice (\<lambda>b. b\<lparr>state := ACTIVE, background := ''SystemButtonFace''\<rparr>)
                  (configure_slice (\<lambda>b. b\<lparr>state := DISABLED\<rparr>)
                     (button_list g) (start_index r) (end_index r))
                  (start_index (r + 1)) (end_index (r + 1))\<rparr>)"
  using assms
  by (simp add: increment_current_row_def deactivate_current_row_eq activate_current_row_def)

lemma handle_submit_in_progress:
  assumes "in_progress g" "current_row g = Some r" "secret_code g = Some S"
    "list_all (\<lambda>color. color \<in> set COLORS) (submitted_colors_of g r)"
  shows "\<exists>ev labels.
     evaluate_submission S (submitted_colors_of g r) = Inr ev \<and>
     (correct_color_count ev, correct_location_color_count ev) =
       spec_score S (submitted_colors_of g r) \<and>
     printed ev = 0 \<and>
     correct_color_count ev + correct_location_color_count ev \<le> COLUMNS \<and>
     update_feedback_grid (correct_color_count ev) (correct_location_color_count ev)
       (feedback_label_list g ! (ROWS - 1 - r)) = (None, labels) \<and>
     length labels = 4 \<and>
     handle_submit now answer g =
       handle_turn_end now answer (correct_color_count ev = COLUMNS) []
         (g\<lparr>instructional_label :=
               Colors_correct (correct_location_color_count ev) (correct_color_count ev),
             feedback_label_list := (feedback_label_list g)[ROWS - 1 - r := labels]\<rparr>)"
proof -
  let ?G = "submitted_colors_of g r"
  from assms have wf: "well_formed g" and r: "r < ROWS" and S: "length S = COLUMNS"
    by (simp_all add: in_progress_def)
  from wf r have G: "length ?G = COLUMNS" by (rule length_submitted_colors)
  from S G obtain ev where ev: "evaluate_submission S ?G = Inr ev"
    "correct_color_count ev = exact_pairs (mset (zip ?G S))"
    "correct_location_color_count ev = color_pairs (mset (zip ?G S))" "printed ev = 0"
    using evaluate_submission_closed_form [of ?G S] by auto
  from S G obtain ev' where "evaluate_submission S ?G = Inr ev'"
    "(correct_color_count ev', correct_location_color_count ev') = spec_score S ?G"
    using evaluate_submission_spec_score [of S ?G] by auto
  with ev(1) have sp: "(correct_color_count ev, correct_location_color_count ev) = spec_score S ?G"
    by simp
  have "exact_pairs (mset (zip ?G S)) + color_pairs (mset (zip ?G S)) \<le> size (mset (zip ?G S))"
    by (rule exact_color_pairs_le)
  with S G ev have le: "correct_color_count ev + correct_location_color_count ev \<le> COLUMNS"
    by simp
  from wf r have row: "length (feedback_label_list g ! (ROWS - 1 - r)) = 4"
    by (simp add: well_formed_def list_all_length)
  with le obtain labels where labels:
    "update_feedback_grid (correct_color_count ev) (correct_location_color_count ev)
       (feedback_label_list g ! (ROWS - 1 - r)) = (None, labels)" "length labels = 4"
    using update_feedback_grid_in_range [of "correct_color_count ev"
        "correct_location_color_count ev" "feedback_label_list g ! (ROWS - 1 - r)"]
    by (auto simp: COLUMNS_def)
  from wf have fl: "length (feedback_label_list g) = ROWS" by (simp add: well_formed_def)
  have "handle_submit now answer g =
       handle_turn_end now answer (correct_color_count ev = COLUMNS) []
         (g\<lparr>instructional_label :=
               Colors_correct (correct_location_color_count ev) (correct_color_count ev),
             feedback_label_list := (feedback_label_list g)[ROWS - 1 - r := labels]\<rparr>)"
    using assms(2,3,4) ev(1,4) labels(1)
    by (simp add: handle_submit_def Let_def fl py_position_row [OF r] COLUMNS_def)
  with ev(1,4) sp le labels show ?thesis by blast
qed

lemma handle_turn_end_won:
  assumes "current_row g = Some r" "start_time g = Some t"
  shows "handle_turn_end now answer True evs g =
     finish (g\<lparr>button_list := configure_slice (\<lambda>b. b\<lparr>state := DISABLED\<rparr>)
                 (button_list g) (start_index r) (end_index r),
               submit_button := DISABLED\<rparr>)
       (evs @ Showinfo_you_win (r + 1) (py_int (float_sub now t)) # play_again_dialog answer)"
  using assms by (simp add: handle_turn_end_def handle_win_eq)

lemma handle_turn_end_lost:
  assumes "current_row g = Some (ROWS - 1)" "secret_code g = Some code" "length code = COLUMNS"
  shows "handle_turn_end now answer False evs g =
     finish (g\<lparr>button_list := configure_slice (\<lambda>b. b\<lparr>state := DISABLED\<rparr>)
                 (button_list g) (start_index (ROWS - 1)) (end_index (ROWS - 1)),
               submit_button := DISABLED\<rparr>)
       (evs @ Showwarning_you_lose code # play_again_dialog answer)"
  using assms by (simp add: handle_turn_end_def handle_loss_eq)

lemma handle_turn_end_next:
  assumes "current_row g = Some r" "r \<noteq> ROWS - 1"
  shows "handle_turn_end now answer False evs g =
     finish (g\<lparr>current_row := Some (r + 1),
              button_list :=
                configure_slice (\<lambda>b. b\<lparr>state := ACTIVE, background := ''SystemButtonFace''\<rparr>)
                  (configure_slice (\<lambda>b. b\<lparr>state := DISABLED\<rparr>)
                     (button_list g) (start_index r) (end_index r))
                  (start_index (r + 1)) (end_index (r + 1))\<rparr>) evs"
  using assms by (simp add: handle_turn_end_def increment_current_row_eq)

lemma well_formed_scored:
  assumes "well_formed g" "length labels = 4"
  shows "well_formed (g\<lparr>instructional_label := l,
             feedback_label_list := (feedback_label_list g)[i := labels]\<rparr>)"
proof -
  have "set ((feedback_label_list g)[i := labels]) \<subseteq> insert labels (set (feedback_label_list g))"
    by (rule set_update_subset_insert)
  with assms show ?thesis by (auto simp: well_formed_def list_all_iff)
qed

lemma handle_submit_outcome:
  assumes "in_progress g" "current_row g = Some r" "secret_code g = Some S"
    "start_time g = Some t"
    "list_all (\<lambda>color. color \<in> set COLORS) (submitted_colors_of g r)"
  shows "\<exists>ev. evaluate_submission S (submitted_colors_of g r) = Inr ev \<and>
     raised (handle_submit now answer g) = None \<and>
     (if correct_color_count ev = COLUMNS
      then events (handle_submit now answer g) =
             Showinfo_you_win (r + 1) (py_int (float_sub now t)) # play_again_dialog answer \<and>
           submit_button (game_after (handle_submit now answer g)) = DISABLED \<and>
           current_row (game_after (handle_submit now answer g)) = Some r
      else if r = ROWS - 1
      then events (handle_submit now answer g) =
             Showwarning_you_lose S # play_again_dialog answer \<and>
           submit_button (game_after (handle_submit now answer g)) = DISABLED \<and>
           current_row (game_after (handle_submit now answer g)) = Some r
      else events (handle_submit now answer g) = [] \<and>
           current_row (game_after (handle_submit now answer g)) = Some (r + 1) \<and>
           in_progress (game_after (handle_submit now answer g)))"
proof -
  from assms(1-3,5) obtain ev labels where ev:
    "evaluate_submission S (submitted_colors_of g r) = Inr ev" "length labels = 4"
    "handle_submit now answer g =
       handle_turn_end now answer (correct_color_count ev = COLUMNS) []
         (g\<lparr>instructional_label :=
               Colors_correct (correct_location_color_count ev) (correct_color_count ev),
             feedback_label_list := (feedback_label_list g)[ROWS - 1 - r := labels]\<rparr>)"
    using handle_submit_in_progress [of g r S now answer] by blast
  let ?g = "g\<lparr>instructional_label :=
               Colors_correct (correct_location_color_count ev) (correct_color_count ev),
             feedback_label_list := (feedback_label_list g)[ROWS - 1 - r := labels]\<rparr>"
  from assms have r: "r < ROWS" and S: "length S = COLUMNS" and wf: "well_formed g"
    and sb: "submit_button g = ACTIVE"
    by (simp_all add: in_progress_def)
  have g: "current_row ?g = Some r" "start_time ?g = Some t" "secret_code ?g = Some S"
    using assms by simp_all
  have wf': "well_formed ?g" using wf ev(2) by (rule well_formed_scored)
  show ?thesis
  proof (cases "correct_color_count ev = COLUMNS")
    case True
    have "handle_submit now answer g = handle_turn_end now answer True [] ?g"
      unfolding ev(3) using True by simp
    also note handle_turn_end_won [OF g(1,2)]
    finally show ?thesis using ev(1) True assms(2) by (simp add: finish_def)
  next
    case False
    have h: "handle_submit now answer g = handle_turn_end now answer False [] ?g"
      unfolding ev(3) using False by simp
    show ?thesis
    proof (cases "r = ROWS - 1")
      case True
      from g(1) True have c: "current_row ?g = Some (ROWS - 1)" by simp
      note h also note handle_turn_end_lost [OF c g(3) S]
      finally show ?thesis using ev(1) False True assms(2) by (simp add: finish_def)
    next
      case n: False
      from r n have r': "r + 1 < ROWS" by simp
      have ip: "in_progress (?g\<lparr>current_row := Some (r + 1),
              button_list :=
                configure_slice (\<lambda>b. b\<lparr>state := ACTIVE, background := ''SystemButtonFace''\<rparr>)
                  (configure_slice (\<lambda>b. b\<lparr>state := DISABLED\<rparr>)
                     (button_list ?g) (start_index r) (end_index r))
                  (start_index (r + 1)) (end_index (r + 1))\<rparr>)"
        using wf' r' S sb assms(3,4)
        by (simp add: in_progress_def well_formed_def length_configure_slice)
      note h also note handle_turn_end_next [OF g(1) n]
      finally have out: "handle_submit now answer g = finish (?g\<lparr>current_row := Some (r + 1),
              button_list :=
                configure_slice (\<lambda>b. b\<lparr>state := ACTIVE, background := ''SystemButtonFace''\<rparr>)
                  (configure_slice (\<lambda>b. b\<lparr>state := DISABLED\<rparr>)
                     (button_list ?g) (start_index r) (end_index r))
                  (start_index (r + 1)) (end_index (r + 1))\<rparr>) []" .
      from ip out show ?thesis using ev(1) False n assms(2) by (simp add: finish_def)
    qed
  qed
qed

lemma secret_code_deactivate: "secret_code (snd (deactivate_current_row g)) = secret_code g"
  by (simp add: deactivate_current_row_def split: option.splits)

lemma secret_code_activate: "secret_code (snd (activate_current_row g)) = secret_code g"
  by (simp add: activate_current_row_def split: option.splits)

lemma secret_code_increment: "secret_code (snd (increment_current_row g)) = secret_code g"
  by (simp add: increment_current_row_def deactivate_current_row_def activate_current_row_def
      split: option.splits)

lemma secret_code_handle_win:
  "secret_code (game_after (handle_win now answer evs g)) = secret_code g"
  by (simp add: handle_win_def deactivate_current_row_def raise_def finish_def Let_def
      split: option.splits)

lemma secret_code_handle_loss:
  "secret_code (game_after (handle_loss answer evs g)) = secret_code g"
  by (simp add: handle_loss_def deactivate_current_row_def raise_def finish_def Let_def
      split: option.splits)

lemma secret_code_handle_turn_end:
  "secret_code (game_after (handle_turn_end now answer has_won evs g)) = secret_code g"
  using secret_code_increment [of g]
  by (cases "increment_current_row g")
    (simp add: handle_turn_end_def secret_code_handle_win secret_code_handle_loss
      raise_def finish_def)

lemma secret_code_handle_submit:
  "secret_code (game_after (handle_submit now answer g)) = secret_code g"
  by (simp add: handle_submit_def Let_def secret_code_handle_turn_end raise_def finish_def
      split: option.splits sum.splits prod.splits)

lemma secret_code_click_submit:
  "secret_code (game_after (click_submit now answer g)) = secret_code g"
  by (simp add: click_submit_def secret_code_handle_submit finish_def)

lemma handle_submit_invalid:
  assumes "current_row g = Some r" "c \<in> set (submitted_colors_of g r)" "c \<notin> set COLORS"
  shows "handle_submit now answer g =
     \<lparr>raised = None, game_after = g, events = [Showerror_invalid_submission]\<rparr>"
proof -
  from assms(2,3) have "\<not> list_all (\<lambda>color. color \<in> set COLORS) (submitted_colors_of g r)"
    by (auto simp: list_all_iff)
  with assms(1) show ?thesis by (simp add: handle_submit_def finish_def)
qed

lemma foldl_snoc_map: "foldl (\<lambda>code i. code @ [f i]) acc xs = acc @ map f xs"
  by (induction xs arbitrary: acc) simp_all

lemma generate_secret_code_eq:
  "generate_secret_code rnd = map (\<lambda>i. COLORS ! (rnd i mod length COLORS)) [0..<COLUMNS]"
  by (simp add: generate_secret_code_def foldl_snoc_map)

lemma length_generate_secret_code: "length (generate_secret_code rnd) = COLUMNS"
  by (simp add: generate_secret_code_eq)

lemma set_generate_secret_code: "set (generate_secret_code rnd) \<subseteq> set COLORS"
proof -
  have "0 < length COLORS" by (simp add: COLORS_def)
  then have "COLORS ! (rnd i mod length COLORS) \<in> set COLORS" for i
    by (intro nth_mem) simp
  then show ?thesis by (auto simp: generate_secret_code_eq)
qed

lemma well_formed_init_game: "well_formed init_game"
  by (simp add: well_formed_def init_game_def list_all_iff)

lemma in_progress_set_color: "in_progress g \<Longrightarrow> in_progress (set_color c g)"
  by (simp add: in_progress_def well_formed_def set_color_def)

lemma in_progress_update_button_color:
  "in_progress g \<Longrightarrow> in_progress (snd (update_button_color row column g))"
  by (simp add: in_progress_def well_formed_def update_button_color_def Let_def)

lemma instructional_label_handle_turn_end:
  "instructional_label (game_after (handle_turn_end now answer has_won evs g)) =
   instructional_label g"
  by (cases "increment_current_row g")
    (auto simp: handle_turn_end_def handle_win_def handle_loss_def increment_current_row_def
      deactivate_current_row_def activate_current_row_def raise_def finish_def Let_def
      split: option.splits if_splits)

lemma handle_submit_shows_score:
  assumes "in_progress g" "current_row g = Some r" "secret_code g = Some S"
    "list_all (\<lambda>color. color \<in> set COLORS) (submitted_colors_of g r)"
  shows "instructional_label (game_after (handle_submit now answer g)) =
     Colors_correct (snd (spec_score S (submitted_colors_of g r)))
                    (fst (spec_score S (submitted_colors_of g r)))"
proof -
  from handle_submit_in_progress [OF assms, of now answer] obtain ev labels where
    e: "evaluate_submission S (submitted_colors_of g r) = Inr ev" and
    h: "handle_submit now answer g =
       handle_turn_end now answer (correct_color_count ev = COLUMNS) []
         (g\<lparr>instructional_label :=
               Colors_correct (correct_location_color_count ev) (correct_color_count ev),
             feedback_label_list := (feedback_label_list g)[ROWS - 1 - r := labels]\<rparr>)"
    by blast
  from assms have "length S = COLUMNS" "length (submitted_colors_of g r) = COLUMNS"
    by (simp_all add: in_progress_def length_submitted_colors)
  from evaluate_submission_spec_score [OF this] e
  have sp: "(correct_color_count ev, correct_location_color_count ev) =
       spec_score S (submitted_colors_of g r)" by simp
  have "fst (spec_score S (submitted_colors_of g r)) = correct_color_count ev"
    "snd (spec_score S (submitted_colors_of g r)) = correct_location_color_count ev"
    by (simp_all flip: sp)
  then show ?thesis
    unfolding h by (simp add: instructional_label_handle_turn_end)
qed

lemma click_submit_disabled:
  "submit_button g = DISABLED \<Longrightarrow>
   click_submit now answer g = \<lparr>raised = None, game_after = g, events = []\<rparr>"
  by (simp add: click_submit_def finish_def)

lemma fold_click_submit_disabled:
  "submit_button g = DISABLED \<Longrightarrow>
   fold (\<lambda>(now, answer) g'. game_after (click_submit now answer g')) inputs g = g"
proof (induction inputs)
  case Nil
  show ?case by simp
next
  case (Cons i inputs)
  obtain now answer where i: "i = (now, answer)" by (cases i)
  from Cons show ?case by (simp add: i click_submit_disabled)
qed

lemma color_pegs_out_of_range:
  "0 < n \<Longrightarrow> length feedback_labels < current_label + n \<Longrightarrow>
   fst (color_pegs c n current_label feedback_labels) = Some IndexError"
proof (induction n arbitrary: current_label feedback_labels)
  case 0
  then show ?case by simp
next
  case (Suc n)
  show ?case
  proof (cases "length feedback_labels \<le> current_label")
    case True
    then show ?thesis by simp
  next
    case False
    with Suc.prems have "0 < n" "length (feedback_labels[current_label := c]) < Suc current_label + n"
      by simp_all
    from Suc.IH [OF this] False show ?thesis by simp
  qed
qed

section \<open>Properties of the score\<close>

text \<open>
  Claim C1. For every secret code and every guess of \<open>COLUMNS\<close> colors, the two loops of
  \<^verbatim>\<open>handle_submit\<close> end without an exception, and the counts they compute are the
  score of the specification's two passes: \<open>correct_color_count\<close> is its
  \<open>exactMatches\<close> and \<open>correct_location_color_count\<close> its \<open>colorMatches\<close>.
\<close>

theorem score_follows_specification:
  assumes "length S = COLUMNS" "length G = COLUMNS"
  shows "\<exists>ev. evaluate_submission S G = Inr ev \<and>
     (correct_color_count ev, correct_location_color_count ev) = spec_score S G"
  using assms by (rule evaluate_submission_spec_score)

theorem score_follows_specification_witness:
  "length example_secret = COLUMNS \<and> length example_guess = COLUMNS \<and>
   spec_score example_secret example_guess = (1, 2) \<and>
   (\<exists>ev. evaluate_submission example_secret example_guess = Inr ev \<and>
     (correct_color_count ev, correct_location_color_count ev) =
       spec_score example_secret example_guess)"
proof -
  have h1: "length example_secret = COLUMNS" by code_simp
  have h2: "length example_guess = COLUMNS" by code_simp
  have h3: "spec_score example_secret example_guess = (1, 2)" by code_simp
  from score_follows_specification [OF h1 h2] h1 h2 h3 show ?thesis by blast
qed

text \<open>
  Claim C3. For a secret code and a guess of the same length (at most \<open>COLUMNS\<close>, the
  length of every code of the game), the evaluation ends without an exception and the two
  counts together are at most the length of the secret. No occurrence of a color in the
  secret is counted twice: the occurrences left in \<open>remaining_colors\<close> are occurrences
  of the secret, and the two counts and the number of occurrences left add up to the
  length of the secret.
\<close>

theorem score_total_bounded:
  assumes "length G = length S" "length S \<le> COLUMNS"
  shows "\<exists>ev. evaluate_submission S G = Inr ev \<and>
     correct_color_count ev + correct_location_color_count ev \<le> length S \<and>
     correct_color_count ev + correct_location_color_count ev +
       length (remaining_colors ev) = length S \<and>
     mset (remaining_colors ev) \<subseteq># mset S"
proof -
  let ?M = "mset (zip G S)"
  from assms obtain ev where ev: "evaluate_submission S G = Inr ev"
    "correct_color_count ev = exact_pairs ?M"
    "correct_location_color_count ev = color_pairs ?M"
    "mset (remaining_colors ev) =
       image_mset snd (filter_mset (\<lambda>(g, s). g \<noteq> s) ?M) -
       image_mset fst (filter_mset (\<lambda>(g, s). g \<noteq> s) ?M)"
    using evaluate_submission_closed_form [of G S] by blast
  have sz: "size ?M = length S" using assms(1) by simp
  have "length (remaining_colors ev) = size (mset (remaining_colors ev))" by simp
  also note ev(4)
  finally have l: "correct_color_count ev + correct_location_color_count ev +
       length (remaining_colors ev) = length S"
    using remaining_size [of ?M] unfolding ev(2,3) sz by simp
  then have "correct_color_count ev + correct_location_color_count ev \<le> length S" by linarith
  moreover have "mset (remaining_colors ev) \<subseteq># mset S"
    unfolding ev(4) using assms(1) by (rule remaining_subset)
  ultimately show ?thesis using ev(1) l by blast
qed

theorem score_total_bounded_witness:
  "length example_guess = length example_secret \<and> length example_secret \<le> COLUMNS \<and>
   (\<exists>ev. evaluate_submission example_secret example_guess = Inr ev \<and>
     correct_color_count ev + correct_location_color_count ev \<le> length example_secret \<and>
     correct_color_count ev + correct_location_color_count ev +
       length (remaining_colors ev) = length example_secret \<and>
     mset (remaining_colors ev) \<subseteq># mset example_secret)"
proof -
  have h1: "length example_guess = length example_secret"
    by (simp add: example_guess_def example_secret_def)
  have h2: "length example_secret \<le> COLUMNS"
    by (simp add: example_secret_def COLUMNS_def)
  from score_total_bounded [OF h1 h2] h1 h2 show ?thesis by blast
qed

text \<open>
  Claim C4. Rearranging the positions of the secret code and of the guess in the same way
  (\<open>p\<close> lists the source positions and is a rearrangement of \<open>0..<length S\<close>) changes
  neither of the two counts.
\<close>

theorem score_permutation_invariant:
  assumes "length G = length S" "length S \<le> COLUMNS" "mset p = mset [0..<length S]"
  shows "\<exists>ev ev'. evaluate_submission S G = Inr ev \<and>
     evaluate_submission (permute p S) (permute p G) = Inr ev' \<and>
     correct_color_count ev' = correct_color_count ev \<and>
     correct_location_color_count ev' = correct_location_color_count ev"
proof -
  have "length p = size (mset p)" by simp
  also have "\<dots> = length S" unfolding assms(3) by simp
  finally have lp: "length p = length S" .
  have l: "length (permute p G) = length (permute p S)" "length (permute p S) \<le> COLUMNS"
    using assms(2) lp by (simp_all add: length_permute)
  have m: "mset (zip (permute p G) (permute p S)) = mset (zip G S)"
    using assms(1,3) by (rule mset_zip_permute)
  from assms obtain ev where ev: "evaluate_submission S G = Inr ev"
    "correct_color_count ev = exact_pairs (mset (zip G S))"
    "correct_location_color_count ev = color_pairs (mset (zip G S))"
    using evaluate_submission_closed_form [of G S] by blast
  from l obtain ev' where ev': "evaluate_submission (permute p S) (permute p G) = Inr ev'"
    "correct_color_count ev' = exact_pairs (mset (zip G S))"
    "correct_location_color_count ev' = color_pairs (mset (zip G S))"
    using evaluate_submission_closed_form [of "permute p G" "permute p S"] unfolding m by blast
  from ev ev' show ?thesis by simp
qed

theorem score_permutation_invariant_witness:
  "length example_guess = length example_secret \<and> length example_secret \<le> COLUMNS \<and>
   mset [3, 0, 1, 2] = mset [0..<length example_secret] \<and>
   permute [3, 0, 1, 2] example_secret = [''green'', ''red'', ''red'', ''blue''] \<and>
   (\<exists>ev ev'. evaluate_submission example_secret example_guess = Inr ev \<and>
     evaluate_submission (permute [3, 0, 1, 2] example_secret)
       (permute [3, 0, 1, 2] example_guess) = Inr ev' \<and>
     correct_color_count ev' = correct_color_count ev \<and>
     correct_location_color_count ev' = correct_location_color_count ev)"
proof -
  have h1: "length example_guess = length example_secret"
    by (simp add: example_guess_def example_secret_def)
  have h2: "length example_secret \<le> COLUMNS"
    by (simp add: example_secret_def COLUMNS_def)
  have h3: "mset [3, 0, 1, 2] = mset [0..<length example_secret]"
    by (simp add: example_secret_def eval_nat_numeral)
  have h4: "permute [3, 0, 1, 2] example_secret = [''green'', ''red'', ''red'', ''blue'']"
    by (simp add: permute_def example_secret_def)
  from score_permutation_invariant [OF h1 h2 h3] h1 h2 h3 h4 show ?thesis by blast
qed

text \<open>
  Claim C9. For a secret code and a guess of \<open>COLUMNS\<close> colors, the \<^verbatim>\<open>except\<close> branch
  of the first loop is never taken: before every iteration \<open>i\<close> the loop has reached
  without an exception an evaluation in which, if the guess agrees with the secret at
  \<open>i\<close>, \<^verbatim>\<open>index\<close> finds that color among the remaining colors. Over the two loops no
  diagnostic is printed, so the \<^verbatim>\<open>except\<close> branch of the second loop, which the
  membership test guards, is not taken either.
\<close>

theorem removal_cannot_fail:
  assumes "length S = COLUMNS" "length G = COLUMNS"
  shows "(\<forall>i<COLUMNS. \<exists>ev.
            for_range (first_pass_body G S) [0..<i] (start_evaluation S) = Inr ev \<and>
            (G ! i = S ! i \<longrightarrow> py_index (remaining_colors ev) (G ! i) \<noteq> None)) \<and>
         (\<exists>ev. evaluate_submission S G = Inr ev \<and> printed ev = 0)"
proof (intro conjI allI impI)
  fix i assume i: "i < COLUMNS"
  with assms obtain ev where ev:
    "for_range (first_pass_body G S) [0..<i] (start_evaluation S) = Inr ev"
    "first_pass_inv G S i ev"
    using first_pass_loop [of i G S] by auto
  from ev(2) i assms have "S ! i \<in> set (remaining_colors ev)"
    by (simp add: first_pass_inv_present)
  then have "G ! i = S ! i \<longrightarrow> py_index (remaining_colors ev) (G ! i) \<noteq> None"
    by (simp add: py_index_None)
  with ev(1) show "\<exists>ev. for_range (first_pass_body G S) [0..<i] (start_evaluation S) = Inr ev \<and>
            (G ! i = S ! i \<longrightarrow> py_index (remaining_colors ev) (G ! i) \<noteq> None)"
    by blast
next
  from assms show "\<exists>ev. evaluate_submission S G = Inr ev \<and> printed ev = 0"
    using evaluate_submission_closed_form [of G S] by auto
qed

theorem removal_cannot_fail_witness:
  "length example_secret = COLUMNS \<and> length repeated_guess = COLUMNS \<and>
   repeated_guess ! 1 = example_secret ! 1 \<and>
   (\<exists>ev. for_range (first_pass_body repeated_guess example_secret) [0..<1]
           (start_evaluation example_secret) = Inr ev \<and>
         py_index (remaining_colors ev) (repeated_guess ! 1) \<noteq> None) \<and>
   (\<exists>ev. evaluate_submission example_secret repeated_guess = Inr ev \<and> printed ev = 0)"
proof -
  have h1: "length example_secret = COLUMNS"
    by (simp add: example_secret_def COLUMNS_def)
  have h2: "length repeated_guess = COLUMNS"
    by (simp add: repeated_guess_def COLUMNS_def)
  have h3: "repeated_guess ! 1 = example_secret ! 1"
    by (simp add: repeated_guess_def example_secret_def)
  have h4: "1 < COLUMNS" by (simp add: COLUMNS_def)
  from removal_cannot_fail [OF h1 h2] h1 h2 h3 h4 show ?thesis by blast
qed

section \<open>Properties of a submission\<close>

text \<open>
  Claim C2, as it is stated, at a concrete input: the game is started at time \<open>0\<close>, the
  player enters the secret code and clicks SUBMIT at time \<open>3/2\<close>. The difference of the
  two times is \<open>3/2\<close>, and the win dialog reports \<open>1\<close> second: the difference truncated
  by \<^verbatim>\<open>int\<close>, not the difference itself.
\<close>

theorem elapsed_seconds_counterexample:
  "in_progress (enter_guess example_secret started_game) \<and>
   start_time (enter_guess example_secret started_game) = Some 0 \<and>
   float_sub (3 / 2) 0 = 3 / 2 \<and>
   events (handle_submit (3 / 2) False (enter_guess example_secret started_game)) =
     [Showinfo_you_win 1 1, Askyesno_play_again False] \<and>
   real_of_int 1 \<noteq> float_sub (3 / 2) 0"
  by code_simp

text \<open>
  Claim C2, amended. For a game in progress and a row filled with recognized colors,
  \<^verbatim>\<open>handle_submit\<close> raises nothing and ends the turn as follows, the win first. If all
  \<open>COLUMNS\<close> colors are in the right place, the win dialog reports \<open>current_row + 1\<close>
  attempts and the whole seconds of the float difference \<open>now - start_time\<close> (truncated
  by \<^verbatim>\<open>int\<close>), SUBMIT is disabled and the row stays the current one; this also holds on
  the last row. Otherwise,
  on row \<open>ROWS - 1\<close>, the loss dialog shows the secret code and SUBMIT is disabled.
  Otherwise the current row is incremented by one, no dialog is shown and the game is
  still in progress.
\<close>

theorem turn_advancement:
  assumes "in_progress g" "current_row g = Some r" "secret_code g = Some S"
    "start_time g = Some t"
    "list_all (\<lambda>color. color \<in> set COLORS) (submitted_colors_of g r)"
  shows "\<exists>ev. evaluate_submission S (submitted_colors_of g r) = Inr ev \<and>
     raised (handle_submit now answer g) = None \<and>
     (if correct_color_count ev = COLUMNS
      then events (handle_submit now answer g) =
             Showinfo_you_win (r + 1) (py_int (float_sub now t)) # play_again_dialog answer \<and>
           submit_button (game_after (handle_submit now answer g)) = DISABLED \<and>
           current_row (game_after (handle_submit now answer g)) = Some r
      else if r = ROWS - 1
      then events (handle_submit now answer g) =
             Showwarning_you_lose S # play_again_dialog answer \<and>
           submit_button (game_after (handle_submit now answer g)) = DISABLED \<and>
           current_row (game_after (handle_submit now answer g)) = Some r
      else events (handle_submit now answer g) = [] \<and>
           current_row (game_after (handle_submit now answer g)) = Some (r + 1) \<and>
           in_progress (game_after (handle_submit now answer g)))"
  using assms by (rule handle_submit_outcome)

theorem turn_advancement_witness:
  "in_progress (enter_guess example_secret started_game) \<and>
   events (handle_submit (3 / 2) False (enter_guess example_secret started_game)) =
     [Showinfo_you_win 1 1, Askyesno_play_again False] \<and>
   submit_button (game_after (handle_submit (3 / 2) False
     (enter_guess example_secret started_game))) = DISABLED \<and>
   in_progress (enter_guess example_guess started_game) \<and>
   events (handle_submit (3 / 2) False (enter_guess example_guess started_game)) = [] \<and>
   current_row (game_after (handle_submit (3 / 2) False
     (enter_guess example_guess started_game))) = Some 1 \<and>
   in_progress (game_after (handle_submit (3 / 2) False
     (enter_guess example_guess started_game))) \<and>
   in_progress (enter_guess example_guess last_row_game) \<and>
   current_row (enter_guess example_guess last_row_game) = Some (ROWS - 1) \<and>
   events (handle_submit (3 / 2) True (enter_guess example_guess last_row_game)) =
     [Showwarning_you_lose example_secret, Askyesno_play_again True, Call_play_again] \<and>
   submit_button (game_after (handle_submit (3 / 2) True
     (enter_guess example_guess last_row_game))) = DISABLED \<and>
   in_progress (enter_guess example_secret last_row_game) \<and>
   events (handle_submit (3 / 2) False (enter_guess example_secret last_row_game)) =
     [Showinfo_you_win 15 1, Askyesno_play_again False]"
proof -
  let ?w = "enter_guess example_secret started_game"
  let ?n = "enter_guess example_guess started_game"
  let ?l = "enter_guess example_guess last_row_game"
  let ?v = "enter_guess example_secret last_row_game"
  have w: "in_progress ?w" "current_row ?w = Some 0" "secret_code ?w = Some example_secret"
    "start_time ?w = Some 0"
    "list_all (\<lambda>color. color \<in> set COLORS) (submitted_colors_of ?w 0)"
    by code_simp+
  have n: "in_progress ?n" "current_row ?n = Some 0" "secret_code ?n = Some example_secret"
    "start_time ?n = Some 0"
    "list_all (\<lambda>color. color \<in> set COLORS) (submitted_colors_of ?n 0)"
    by code_simp+
  have l: "in_progress ?l" "current_row ?l = Some 14" "secret_code ?l = Some example_secret"
    "start_time ?l = Some 0"
    "list_all (\<lambda>color. color \<in> set COLORS) (submitted_colors_of ?l 14)"
    by code_simp+
  have v: "in_progress ?v" "current_row ?v = Some 14" "secret_code ?v = Some example_secret"
    "start_time ?v = Some 0"
    "list_all (\<lambda>color. color \<in> set COLORS) (submitted_colors_of ?v 14)"
    by code_simp+
  have ew: "evaluate_submission example_secret (submitted_colors_of ?w 0) =
     Inr \<lparr>correct_color_count = 4, correct_location_color_count = 0,
          correct_color_tracker = [True, True, True, True],
          remaining_colors = [], printed = 0\<rparr>"
    and ev: "evaluate_submission example_secret (submitted_colors_of ?v 14) =
     Inr \<lparr>correct_color_count = 4, correct_location_color_count = 0,
          correct_color_tracker = [True, True, True, True],
          remaining_colors = [], printed = 0\<rparr>"
    and en: "evaluate_submission example_secret (submitted_colors_of ?n 0) =
     Inr \<lparr>correct_color_count = 1, correct_location_color_count = 2,
          correct_color_tracker = [True, False, False, False],
          remaining_colors = [''green''], printed = 0\<rparr>"
    and el: "evaluate_submission example_secret (submitted_colors_of ?l 14) =
     Inr \<lparr>correct_color_count = 1, correct_location_color_count = 2,
          correct_color_tracker = [True, False, False, False],
          remaining_colors = [''green''], printed = 0\<rparr>"
    by code_simp+
  have p: "py_int (float_sub (3 / 2) 0) = 1" by code_simp
  note tw = turn_advancement [OF w, of "3 / 2" False, unfolded ew]
  note tn = turn_advancement [OF n, of "3 / 2" False, unfolded en]
  note tl = turn_advancement [OF l, of "3 / 2" True, unfolded el]
  note tv = turn_advancement [OF v, of "3 / 2" False, unfolded ev]
  from tw tn tl tv w(1) n(1) l(1,2) v(1) show ?thesis
    by (simp add: COLUMNS_def ROWS_def play_again_dialog_def p)
qed

text \<open>
  Claim C5, as it is stated, at a concrete input: on the game that has not been started,
  where no button of the play area holds a recognized color, \<^verbatim>\<open>handle_submit\<close> does not
  show the invalid-submission error. It raises \<^verbatim>\<open>TypeError\<close>: the row arithmetic on a
  current row of \<^verbatim>\<open>None\<close> comes before the validation.
\<close>

theorem not_started_counterexample:
  "current_row init_game = None \<and>
   list_all (\<lambda>b. background b \<notin> set COLORS) (button_list init_game) \<and>
   handle_submit 1 False init_game =
     \<lparr>raised = Some TypeError, game_after = init_game, events = []\<rparr>"
  by code_simp

text \<open>
  Claim C5, amended. On a started game (there is a current row: the game is in progress,
  won or lost), when the submitted row holds a color that is not one of \<open>COLORS\<close> (an
  empty slot holds the background \<^verbatim>\<open>SystemButtonFace\<close>), \<^verbatim>\<open>handle_submit\<close> shows the
  invalid-submission error and returns before the evaluation: no exception, no other
  event, and the game object is exactly what it was: the current row, the feedback
  labels and the instructional label included. The same holds after any number of such
  submissions, whatever the time and the answers.
\<close>

theorem invalid_guess_rejected:
  assumes "current_row g = Some r" "c \<in> set (submitted_colors_of g r)" "c \<notin> set COLORS"
  shows "handle_submit now answer g =
           \<lparr>raised = None, game_after = g, events = [Showerror_invalid_submission]\<rparr> \<and>
         fold (\<lambda>(now', answer') g'. game_after (handle_submit now' answer' g')) inputs g = g"
proof
  show "handle_submit now answer g =
           \<lparr>raised = None, game_after = g, events = [Showerror_invalid_submission]\<rparr>"
    using assms by (rule handle_submit_invalid)
  show "fold (\<lambda>(now', answer') g'. game_after (handle_submit now' answer' g')) inputs g = g"
  proof (induction inputs)
    case Nil
    show ?case by simp
  next
    case (Cons i inputs)
    obtain now' answer' where i: "i = (now', answer')" by (cases i)
    show ?case using Cons by (simp add: i handle_submit_invalid [OF assms])
  qed
qed

theorem invalid_guess_rejected_witness:
  "current_row (enter_guess short_guess started_game) = Some 0 \<and>
   submitted_colors_of (enter_guess short_guess started_game) 0 =
     [''red'', ''blue'', ''green'', ''SystemButtonFace''] \<and>
   ''SystemButtonFace'' \<notin> set COLORS \<and>
   handle_submit 1 False (enter_guess short_guess started_game) =
     \<lparr>raised = None, game_after = enter_guess short_guess started_game,
      events = [Showerror_invalid_submission]\<rparr> \<and>
   fold (\<lambda>(now', answer') g'. game_after (handle_submit now' answer' g'))
     [(1, False), (2, True), (3, False)] (enter_guess short_guess started_game) =
     enter_guess short_guess started_game"
proof -
  let ?g = "enter_guess short_guess started_game"
  have h1: "current_row ?g = Some 0" by code_simp
  have h2: "submitted_colors_of ?g 0 = [''red'', ''blue'', ''green'', ''SystemButtonFace'']"
    by code_simp
  have h3: "''SystemButtonFace'' \<notin> set COLORS" by code_simp
  have h4: "''SystemButtonFace'' \<in> set (submitted_colors_of ?g 0)" unfolding h2 by simp
  from invalid_guess_rejected [OF h1 h4 h3] h1 h2 h3 show ?thesis by blast
qed

text \<open>
  Claim C6, as it is stated, at a concrete input: in the won game, where SUBMIT is
  disabled, a call of \<^verbatim>\<open>handle_submit\<close> does not fail; it returns normally and shows the
  win dialog again, with the new time.
\<close>

theorem game_over_counterexample:
  "submit_button won_game = DISABLED \<and>
   raised (handle_submit 5 False won_game) = None \<and>
   events (handle_submit 5 False won_game) = [Showinfo_you_win 1 5, Askyesno_play_again False] \<and>
   game_after (handle_submit 5 False won_game) = won_game"
  by code_simp

text \<open>
  Claim C6, amended. When a submission wins the game or is the non-winning submission of
  the last row, \<^verbatim>\<open>handle_submit\<close> disables SUBMIT. From then on a click on SUBMIT does
  not reach \<^verbatim>\<open>handle_submit\<close>: it raises nothing, shows nothing and leaves the game
  object unchanged, however often it is repeated. The game object is not reset (the
  current row and the secret code stay), and the \<^verbatim>\<open>play_again\<close> callback is called
  exactly when the player answers yes to the play-again question.
\<close>

theorem terminal_submit_disabled:
  assumes "in_progress g" "current_row g = Some r" "secret_code g = Some S"
    "list_all (\<lambda>color. color \<in> set COLORS) (submitted_colors_of g r)"
    "evaluate_submission S (submitted_colors_of g r) = Inr ev"
    "correct_color_count ev = COLUMNS \<or> r = ROWS - 1"
  shows "submit_button (game_after (handle_submit now answer g)) = DISABLED \<and>
     click_submit now' answer' (game_after (handle_submit now answer g)) =
       \<lparr>raised = None, game_after = game_after (handle_submit now answer g), events = []\<rparr> \<and>
     fold (\<lambda>(now', answer') g'. game_after (click_submit now' answer' g')) inputs
       (game_after (handle_submit now answer g)) = game_after (handle_submit now answer g) \<and>
     current_row (game_after (handle_submit now answer g)) = Some r \<and>
     secret_code (game_after (handle_submit now answer g)) = Some S \<and>
     (Call_play_again \<in> set (events (handle_submit now answer g)) \<longleftrightarrow> answer)"
proof -
  from assms(1) obtain t where t: "start_time g = Some t"
    by (auto simp: in_progress_def)
  from handle_submit_outcome [OF assms(1-3) t assms(4), of now answer] assms(5,6)
  have d: "submit_button (game_after (handle_submit now answer g)) = DISABLED"
    and c: "current_row (game_after (handle_submit now answer g)) = Some r"
    and p: "Call_play_again \<in> set (events (handle_submit now answer g)) \<longleftrightarrow> answer"
    by (auto simp: play_again_dialog_def split: if_splits)
  from d c p assms(3) show ?thesis
    by (simp add: click_submit_disabled fold_click_submit_disabled secret_code_handle_submit)
qed

theorem terminal_submit_disabled_witness:
  "in_progress (enter_guess example_secret started_game) \<and>
   evaluate_submission example_secret
     (submitted_colors_of (enter_guess example_secret started_game) 0) =
     Inr \<lparr>correct_color_count = 4, correct_location_color_count = 0,
          correct_color_tracker = [True, True, True, True],
          remaining_colors = [], printed = 0\<rparr> \<and>
   submit_button won_game = DISABLED \<and>
   click_submit 5 True won_game = \<lparr>raised = None, game_after = won_game, events = []\<rparr> \<and>
   fold (\<lambda>(now', answer') g'. game_after (click_submit now' answer' g'))
     [(5, True), (6, False)] won_game = won_game \<and>
   current_row won_game = Some 0 \<and>
   secret_code won_game = Some example_secret"
proof -
  let ?g = "enter_guess example_secret started_game"
  have h1: "in_progress ?g" by code_simp
  have h2: "current_row ?g = Some 0" by code_simp
  have h3: "secret_code ?g = Some example_secret" by code_simp
  have h5: "list_all (\<lambda>color. color \<in> set COLORS) (submitted_colors_of ?g 0)" by code_simp
  have h6: "evaluate_submission example_secret (submitted_colors_of ?g 0) =
     Inr \<lparr>correct_color_count = 4, correct_location_color_count = 0,
          correct_color_tracker = [True, True, True, True],
          remaining_colors = [], printed = 0\<rparr>"
    by code_simp
  have h7: "correct_color_count \<lparr>correct_color_count = 4, correct_location_color_count = 0,
          correct_color_tracker = [True, True, True, True],
          remaining_colors = ([] :: color list), printed = 0\<rparr> = COLUMNS \<or> 0 = ROWS - 1"
    by (simp add: COLUMNS_def)
  from terminal_submit_disabled [OF h1 h2 h3 h5 h6 h7, of "3 / 2" False 5 True
      "[(5, True), (6, False)]"] h1 h6
  show ?thesis unfolding won_game_def by blast
qed

section \<open>Properties of the start of a game\<close>

text \<open>
  Claim C7. On a fresh game object (built by \<^verbatim>\<open>initialize_gui\<close>, no current row yet),
  \<^verbatim>\<open>start_game\<close> raises nothing, stores a secret code of exactly \<open>COLUMNS\<close> colors
  each of which is one of \<open>COLORS\<close> (the draws are independent, so a color may repeat),
  sets the current row to \<open>0\<close>, records the start time, and leaves the game in progress.
\<close>

theorem start_game_fresh:
  assumes "well_formed g" "current_row g = None"
  shows "fst (start_game rnd now g) = None \<and>
     secret_code (snd (start_game rnd now g)) = Some (generate_secret_code rnd) \<and>
     length (generate_secret_code rnd) = COLUMNS \<and>
     set (generate_secret_code rnd) \<subseteq> set COLORS \<and>
     current_row (snd (start_game rnd now g)) = Some 0 \<and>
     start_time (snd (start_game rnd now g)) = Some now \<and>
     in_progress (snd (start_game rnd now g))"
  using assms
  by (simp add: start_game_def increment_current_row_def activate_current_row_def
      length_generate_secret_code set_generate_secret_code in_progress_def well_formed_def
      length_configure_slice ROWS_def)

theorem start_game_fresh_witness:
  "well_formed init_game \<and> current_row init_game = None \<and>
   fst (start_game example_rnd 0 init_game) = None \<and>
   secret_code (snd (start_game example_rnd 0 init_game)) = Some (generate_secret_code example_rnd) \<and>
   generate_secret_code example_rnd = [''red'', ''red'', ''blue'', ''green''] \<and>
   length (generate_secret_code example_rnd) = COLUMNS \<and>
   set (generate_secret_code example_rnd) \<subseteq> set COLORS \<and>
   current_row (snd (start_game example_rnd 0 init_game)) = Some 0 \<and>
   start_time (snd (start_game example_rnd 0 init_game)) = Some 0 \<and>
   in_progress (snd (start_game example_rnd 0 init_game))"
proof -
  have h1: "well_formed init_game" by (rule well_formed_init_game)
  have h2: "current_row init_game = None" by (simp add: init_game_def)
  have h3: "generate_secret_code example_rnd = [''red'', ''red'', ''blue'', ''green'']"
    by code_simp
  from start_game_fresh [OF h1 h2, of example_rnd 0] h1 h2 h3 show ?thesis by blast
qed

section \<open>Frame and safety properties of a submission\<close>

text \<open>
  Claim C8. Whatever the game object and the submitted row (valid or not, and also when
  an exception leaves the handler), the secret code stored after \<^verbatim>\<open>handle_submit\<close> is
  the secret code stored before it; the same holds for a click on SUBMIT.
\<close>

theorem secret_code_unchanged:
  "secret_code (game_after (handle_submit now answer g)) = secret_code g \<and>
   secret_code (game_after (click_submit now answer g)) = secret_code g"
  by (simp add: secret_code_handle_submit secret_code_click_submit)

theorem secret_code_unchanged_witness:
  "secret_code (enter_guess example_guess started_game) = Some example_secret \<and>
   secret_code (game_after (handle_submit 1 False (enter_guess example_guess started_game))) =
     secret_code (enter_guess example_guess started_game) \<and>
   secret_code (game_after (click_submit 1 False (enter_guess example_guess started_game))) =
     secret_code (enter_guess example_guess started_game)"
proof -
  have h: "secret_code (enter_guess example_guess started_game) = Some example_secret"
    by code_simp
  from secret_code_unchanged [of 1 False "enter_guess example_guess started_game"] h
  show ?thesis by blast
qed

text \<open>
  Claim C10. For a game in progress and a row filled with recognized colors, the row's
  tuple of feedback labels is found and has four labels, the two counts add up to at most
  four, the first loop colors the labels \<open>0\<close> up to the number of exact matches and the
  second continues up to the sum of the counts, neither of them raising \<^verbatim>\<open>IndexError\<close>,
  and \<^verbatim>\<open>handle_submit\<close> as a whole raises nothing.
\<close>

theorem feedback_pegs_in_range:
  assumes "in_progress g" "current_row g = Some r" "secret_code g = Some S"
    "list_all (\<lambda>color. color \<in> set COLORS) (submitted_colors_of g r)"
  shows "\<exists>ev labels1 labels.
     evaluate_submission S (submitted_colors_of g r) = Inr ev \<and>
     py_position (length (feedback_label_list g)) (actual_row r) = Some (ROWS - 1 - r) \<and>
     length (feedback_label_list g ! (ROWS - 1 - r)) = 4 \<and>
     correct_color_count ev + correct_location_color_count ev \<le> 4 \<and>
     color_pegs ''red'' (correct_color_count ev) 0 (feedback_label_list g ! (ROWS - 1 - r)) =
       (None, correct_color_count ev, labels1) \<and>
     color_pegs ''white'' (correct_location_color_count ev) (correct_color_count ev) labels1 =
       (None, correct_color_count ev + correct_location_color_count ev, labels) \<and>
     raised (handle_submit now answer g) = None"
proof -
  from assms(1) obtain t where t: "start_time g = Some t"
    by (auto simp: in_progress_def)
  from assms have wf: "well_formed g" and r: "r < ROWS" by (simp_all add: in_progress_def)
  from handle_submit_outcome [OF assms(1-3) t assms(4), of now answer]
  obtain ev where ev: "evaluate_submission S (submitted_colors_of g r) = Inr ev"
    and nr: "raised (handle_submit now answer g) = None" by blast
  from handle_submit_in_progress [OF assms, of now answer] ev
  have le: "correct_color_count ev + correct_location_color_count ev \<le> 4"
    by (auto simp: COLUMNS_def)
  from wf r have row: "length (feedback_label_list g ! (ROWS - 1 - r)) = 4"
    and fl: "length (feedback_label_list g) = ROWS"
    by (simp_all add: well_formed_def list_all_length)
  let ?ls = "feedback_label_list g ! (ROWS - 1 - r)"
  from le row obtain l1 where l1:
    "color_pegs ''red'' (correct_color_count ev) 0 ?ls = (None, correct_color_count ev, l1)"
    "length l1 = length ?ls"
    using color_pegs_in_range [of 0 "correct_color_count ev" ?ls "''red''"] by auto
  with le row obtain l2 where l2:
    "color_pegs ''white'' (correct_location_color_count ev) (correct_color_count ev) l1 =
       (None, correct_color_count ev + correct_location_color_count ev, l2)"
    using color_pegs_in_range [of "correct_color_count ev" "correct_location_color_count ev"
        l1 "''white''"] by auto
  from ev nr le row l1(1) l2 show ?thesis
    unfolding fl py_position_row [OF r] by blast
qed

theorem feedback_pegs_in_range_witness:
  "in_progress (enter_guess example_guess started_game) \<and>
   current_row (enter_guess example_guess started_game) = Some 0 \<and>
   secret_code (enter_guess example_guess started_game) = Some example_secret \<and>
   list_all (\<lambda>color. color \<in> set COLORS)
     (submitted_colors_of (enter_guess example_guess started_game) 0) \<and>
   feedback_label_list (game_after (handle_submit 1 False
     (enter_guess example_guess started_game))) ! 14 = [''red'', ''white'', ''white'', ''black''] \<and>
   (\<exists>ev labels1 labels.
     evaluate_submission example_secret
       (submitted_colors_of (enter_guess example_guess started_game) 0) = Inr ev \<and>
     py_position (length (feedback_label_list (enter_guess example_guess started_game)))
       (actual_row 0) = Some (ROWS - 1 - 0) \<and>
     length (feedback_label_list (enter_guess example_guess started_game) ! (ROWS - 1 - 0)) = 4 \<and>
     correct_color_count ev + correct_location_color_count ev \<le> 4 \<and>
     color_pegs ''red'' (correct_color_count ev) 0
       (feedback_label_list (enter_guess example_guess started_game) ! (ROWS - 1 - 0)) =
       (None, correct_color_count ev, labels1) \<and>
     color_pegs ''white'' (correct_location_color_count ev) (correct_color_count ev) labels1 =
       (None, correct_color_count ev + correct_location_color_count ev, labels) \<and>
     raised (handle_submit 1 False (enter_guess example_guess started_game)) = None)"
proof -
  let ?g = "enter_guess example_guess started_game"
  have h1: "in_progress ?g" by code_simp
  have h2: "current_row ?g = Some 0" by code_simp
  have h3: "secret_code ?g = Some example_secret" by code_simp
  have h4: "list_all (\<lambda>color. color \<in> set COLORS) (submitted_colors_of ?g 0)" by code_simp
  have h5: "feedback_label_list (game_after (handle_submit 1 False ?g)) ! 14 =
     [''red'', ''white'', ''white'', ''black'']" by code_simp
  from feedback_pegs_in_range [OF h1 h2 h3 h4, of 1 False] h1 h2 h3 h4 h5
  show ?thesis by blast
qed

end
